theory Spec2Isabelle
  imports Main
begin

section \<open>JavaScript values\<close>

text \<open>
  The library ez-opendata.js works on parsed JSON and on the plain objects it builds
  from it. A value is one of the JSON shapes, or \<open>undefined\<close> (what a read of an
  absent property yields).
  \<^item> A number is modelled by an integer: identifiers and counts are integers; the code
    never computes with a number read from a response, it only tests it for truthiness
    and prints it into a URL.
  \<^item> A string is a list of characters, each standing for one code unit below 256.
  \<^item> An object is the list of its own enumerable properties in insertion order.
    JavaScript enumerates integer-like keys before the others; no function below
    depends on where an integer-like key stands.
  \<^item> An array is the list of its elements, together with the named properties assigned
    to it after its creation (none for parsed JSON; \<open>a.url = ...\<close> adds one).
  Reads of properties see own properties only: the names the code reads (tags, members,
  type, id, website, cuisine, query, ...) are none of those an object inherits, and the
  one computed key that is not an own key, \<open>infos[pageid]\<close>, is a page id, a
  number.
\<close>

datatype jsval =
    JUndefined
  | JNull
  | JBool bool
  | JNum int
  | JStr string
  | JArr "jsval list" "(string \<times> jsval) list"
  | JObj "(string \<times> jsval) list"

text \<open>
  An exception thrown, or the reason of a rejected promise. \<open>TypeError\<close> is what the
  runtime raises on a read of a property of \<open>undefined\<close> or \<open>null\<close>, on a call
  of something that is not a function and on the destructuring of a value that is not
  iterable; \<open>Rejected v\<close> is \<open>Promise.reject(v)\<close>.
\<close>

datatype js_error = TypeError | SyntaxError | Rejected jsval

definition bind_res :: "js_error + 'a \<Rightarrow> ('a \<Rightarrow> js_error + 'b) \<Rightarrow> js_error + 'b" where
  "bind_res m f = (case m of Inl e \<Rightarrow> Inl e | Inr x \<Rightarrow> f x)"

fun map_res :: "('a \<Rightarrow> js_error + 'b) \<Rightarrow> 'a list \<Rightarrow> js_error + 'b list" where
  "map_res f [] = Inr []"
| "map_res f (x # xs) =
     bind_res (f x) (\<lambda>y. bind_res (map_res f xs) (\<lambda>ys. Inr (y # ys)))"

subsection \<open>Strings\<close>

definition digit_char :: "nat \<Rightarrow> char" where
  "digit_char d = ''0123456789'' ! d"

fun show_nat :: "nat \<Rightarrow> string" where
  "show_nat n =
     (if n < 10 then [digit_char n] else show_nat (n div 10) @ [digit_char (n mod 10)])"

declare show_nat.simps [simp del]

definition show_int :: "int \<Rightarrow> string" where
  "show_int i = (if i < 0 then CHR ''-'' # show_nat (nat (- i)) else show_nat (nat i))"

text \<open>\<open>String.prototype.startsWith\<close>.\<close>

definition startsWith :: "string \<Rightarrow> string \<Rightarrow> bool" where
  "startsWith s pre = (take (length pre) s = pre)"

text \<open>
  \<open>String.prototype.split\<close> with a separator of one character: the pieces between
  the separators, one piece (the whole string) when there is none; \<open>acc\<close> is the
  piece being read, reversed.
\<close>

fun split_acc :: "char \<Rightarrow> string \<Rightarrow> string \<Rightarrow> string list" where
  "split_acc sep acc [] = [rev acc]"
| "split_acc sep acc (c # cs) =
     (if c = sep then rev acc # split_acc sep [] cs else split_acc sep (c # acc) cs)"

definition split :: "string \<Rightarrow> char \<Rightarrow> string list" where
  "split s sep = split_acc sep [] s"

text \<open>
  \<open>String.prototype.trim\<close>: white space and line terminators among the code units
  below 256 are tab, line feed, vertical tab, form feed, carriage return, space and the
  no-break space.
\<close>

definition isWhiteSpace :: "char \<Rightarrow> bool" where
  "isWhiteSpace c =
     (c \<in> set [CHR 0x09, CHR 0x0A, CHR 0x0B, CHR 0x0C, CHR 0x0D, CHR 0x20, CHR 0xA0])"

definition trim :: "string \<Rightarrow> string" where
  "trim s = rev (dropWhile isWhiteSpace (rev (dropWhile isWhiteSpace s)))"

text \<open>
  \<open>String.prototype.toLowerCase\<close>: below 256 the capitals are A to Z and the
  accented capitals 0xC0 to 0xDE without the multiplication sign 0xD7; each has its
  small letter 32 places further.
\<close>

definition upper_chars :: string where
  "upper_chars = ''ABCDEFGHIJKLMNOPQRSTUVWXYZ'' @
     [CHR 0xC0, CHR 0xC1, CHR 0xC2, CHR 0xC3, CHR 0xC4, CHR 0xC5, CHR 0xC6, CHR 0xC7,
      CHR 0xC8, CHR 0xC9, CHR 0xCA, CHR 0xCB, CHR 0xCC, CHR 0xCD, CHR 0xCE, CHR 0xCF,
      CHR 0xD0, CHR 0xD1, CHR 0xD2, CHR 0xD3, CHR 0xD4, CHR 0xD5, CHR 0xD6,
      CHR 0xD8, CHR 0xD9, CHR 0xDA, CHR 0xDB, CHR 0xDC, CHR 0xDD, CHR 0xDE]"

definition lower_chars :: string where
  "lower_chars = ''abcdefghijklmnopqrstuvwxyz'' @
     [CHR 0xE0, CHR 0xE1, CHR 0xE2, CHR 0xE3, CHR 0xE4, CHR 0xE5, CHR 0xE6, CHR 0xE7,
      CHR 0xE8, CHR 0xE9, CHR 0xEA, CHR 0xEB, CHR 0xEC, CHR 0xED, CHR 0xEE, CHR 0xEF,
      CHR 0xF0, CHR 0xF1, CHR 0xF2, CHR 0xF3, CHR 0xF4, CHR 0xF5, CHR 0xF6,
      CHR 0xF8, CHR 0xF9, CHR 0xFA, CHR 0xFB, CHR 0xFC, CHR 0xFD, CHR 0xFE]"

definition toLowerChar :: "char \<Rightarrow> char" where
  "toLowerChar c = (case map_of (zip upper_chars lower_chars) c of Some l \<Rightarrow> l | None \<Rightarrow> c)"

definition toLowerCase :: "string \<Rightarrow> string" where
  "toLowerCase s = map toLowerChar s"

text \<open>\<open>Array.prototype.join\<close> on the strings of the elements.\<close>

fun join_strs :: "string \<Rightarrow> string list \<Rightarrow> string" where
  "join_strs sep [] = []"
| "join_strs sep [s] = s"
| "join_strs sep (s # t # ts) = s @ sep @ join_strs sep (t # ts)"

subsection \<open>Properties\<close>

definition index_props :: "'a list \<Rightarrow> (string \<times> 'a) list" where
  "index_props xs = zip (map show_nat [0..<length xs]) xs"

text \<open>
  The own enumerable properties of a value, as \<open>Object.keys\<close> and the spread
  \<open>{...v}\<close> see them: none for \<open>undefined\<close>, \<open>null\<close>, a boolean or a number,
  the characters of a string and the elements of an array under their indices.
\<close>

fun own_props :: "jsval \<Rightarrow> (string \<times> jsval) list" where
  "own_props (JObj kvs) = kvs"
| "own_props (JArr xs named) = index_props xs @ named"
| "own_props (JStr s) = index_props (map (\<lambda>c. JStr [c]) s)"
| "own_props JUndefined = []"
| "own_props JNull = []"
| "own_props (JBool b) = []"
| "own_props (JNum n) = []"

definition lookup :: "(string \<times> jsval) list \<Rightarrow> string \<Rightarrow> jsval" where
  "lookup kvs k = (case map_of kvs k of Some v \<Rightarrow> v | None \<Rightarrow> JUndefined)"

text \<open>
  The read \<open>v.k\<close> or \<open>v[k]\<close>: a TypeError on \<open>undefined\<close> and \<open>null\<close>,
  \<open>undefined\<close> for a property the value does not have.
\<close>

fun get_prop :: "jsval \<Rightarrow> string \<Rightarrow> js_error + jsval" where
  "get_prop JUndefined k = Inl TypeError"
| "get_prop JNull k = Inl TypeError"
| "get_prop (JArr xs named) k =
     Inr (if k = ''length'' then JNum (int (length xs)) else lookup (own_props (JArr xs named)) k)"
| "get_prop (JStr s) k =
     Inr (if k = ''length'' then JNum (int (length s)) else lookup (own_props (JStr s)) k)"
| "get_prop (JObj kvs) k = Inr (lookup kvs k)"
| "get_prop (JBool b) k = Inr JUndefined"
| "get_prop (JNum n) k = Inr JUndefined"

text \<open>
  The assignment \<open>o[k] = v\<close> on the property list of an object: an existing property
  keeps its place, a new one goes last. \<open>delete o[k]\<close> removes it.
\<close>

definition obj_set :: "string \<Rightarrow> jsval \<Rightarrow> (string \<times> jsval) list \<Rightarrow> (string \<times> jsval) list" where
  "obj_set k v kvs =
     (if k \<in> fst ` set kvs then map (\<lambda>(k', v'). if k' = k then (k', v) else (k', v')) kvs
      else kvs @ [(k, v)])"

definition obj_delete :: "string \<Rightarrow> (string \<times> jsval) list \<Rightarrow> (string \<times> jsval) list" where
  "obj_delete k kvs = filter (\<lambda>(k', v'). k' \<noteq> k) kvs"

text \<open>The spread \<open>{...acc, ...v}\<close>: the own properties of \<open>v\<close> assigned in order.\<close>

definition spread :: "(string \<times> jsval) list \<Rightarrow> jsval \<Rightarrow> (string \<times> jsval) list" where
  "spread acc v = foldl (\<lambda>kvs (k, x). obj_set k x kvs) acc (own_props v)"


subsection \<open>Conversions\<close>

fun truthy :: "jsval \<Rightarrow> bool" where
  "truthy JUndefined = False"
| "truthy JNull = False"
| "truthy (JBool b) = b"
| "truthy (JNum n) = (n \<noteq> 0)"
| "truthy (JStr s) = (s \<noteq> [])"
| "truthy (JArr xs named) = True"
| "truthy (JObj kvs) = True"

definition nullish :: "jsval \<Rightarrow> bool" where
  "nullish v = (v = JUndefined \<or> v = JNull)"

text \<open>
  ToString, as a template literal applies it to a substitution. An array prints its
  elements joined by commas, \<open>undefined\<close> and \<open>null\<close> among them as the empty
  string (\<open>to_strings\<close>). An object prints as \<open>[object Object]\<close>; one with an own property
  \<open>toString\<close> (never a function in parsed JSON) has no primitive value, a TypeError.
\<close>

fun to_string :: "jsval \<Rightarrow> js_error + string"
  and to_strings :: "jsval list \<Rightarrow> js_error + string list" where
  "to_string JUndefined = Inr ''undefined''"
| "to_string JNull = Inr ''null''"
| "to_string (JBool b) = Inr (if b then ''true'' else ''false'')"
| "to_string (JNum n) = Inr (show_int n)"
| "to_string (JStr s) = Inr s"
| "to_string (JArr xs named) =
     bind_res (to_strings xs) (\<lambda>strs. Inr (join_strs '','' strs))"
| "to_string (JObj kvs) =
     (if ''toString'' \<in> fst ` set kvs then Inl TypeError else Inr ''[object Object]'')"
| "to_strings [] = Inr []"
| "to_strings (x # xs) =
     bind_res (if x = JUndefined \<or> x = JNull then Inr [] else to_string x)
       (\<lambda>s. bind_res (to_strings xs) (\<lambda>strs. Inr (s # strs)))"

text \<open>\<open>Array.prototype.join\<close> on an array of values.\<close>

definition join :: "jsval list \<Rightarrow> string \<Rightarrow> js_error + string" where
  "join xs sep = bind_res (to_strings xs) (\<lambda>strs. Inr (join_strs sep strs))"

text \<open>
  A template literal: its literal pieces and its substitutions, converted from left
  to right.
\<close>

datatype piece = Lit string | Sub jsval

fun template :: "piece list \<Rightarrow> js_error + string" where
  "template [] = Inr []"
| "template (Lit s # ps) = bind_res (template ps) (\<lambda>rest. Inr (s @ rest))"
| "template (Sub v # ps) =
     bind_res (to_string v) (\<lambda>s. bind_res (template ps) (\<lambda>rest. Inr (s @ rest)))"

text \<open>A parameter with a default value: the default stands in for \<open>undefined\<close>.\<close>

definition default_arg :: "jsval \<Rightarrow> jsval \<Rightarrow> jsval" where
  "default_arg d v = (if v = JUndefined then d else v)"

text \<open>
  The receiver of \<open>filter\<close>, \<open>map\<close> or \<open>forEach\<close>: its elements when it is an
  array; anything else has no such method, and the call throws.
\<close>

fun array_elems :: "jsval \<Rightarrow> js_error + jsval list" where
  "array_elems (JArr xs named) = Inr xs"
| "array_elems v = Inl TypeError"

text \<open>
  The network: \<open>fetch\<close> followed by \<open>response.json()\<close>, a parameter of every
  operation. It answers a request with the parsed body, or fails.
\<close>

datatype request = Get string | Post string string

type_synonym fetch_json = "request \<Rightarrow> js_error + jsval"

definition canned :: "jsval \<Rightarrow> fetch_json" where
  "canned d = (\<lambda>req. Inr d)"

section \<open>The POI query (Overpass)\<close>

text \<open>
  The array pattern \<open>[key, value]\<close> of the callback's parameter: it iterates over
  the category and takes the first two items, \<open>undefined\<close> for a missing one. An
  array and a string are iterable; anything else, a plain object too, is not, and the
  destructuring throws a TypeError.
\<close>

definition item :: "jsval list \<Rightarrow> nat \<Rightarrow> jsval" where
  "item xs i = (if i < length xs then xs ! i else JUndefined)"

fun destructure_pair :: "jsval \<Rightarrow> js_error + jsval \<times> jsval" where
  "destructure_pair (JArr xs named) = Inr (item xs 0, item xs 1)"
| "destructure_pair (JStr s) =
     Inr (item (map (\<lambda>c. JStr [c]) s) 0, item (map (\<lambda>c. JStr [c]) s) 1)"
| "destructure_pair v = Inl TypeError"

definition dq :: string where
  "dq = [CHR 0x22]"

definition nl :: string where
  "nl = [CHR 0x0A]"

text \<open>The template \<open>p\<close> of one category (lines 16 to 19).\<close>

definition category_filters :: "jsval \<Rightarrow> jsval \<Rightarrow> js_error + string" where
  "category_filters bbox category =
     bind_res (destructure_pair category) (\<lambda>(key, val).
       template
        [Lit (nl @ ''          node['' @ dq), Sub key, Lit (dq @ ''='' @ dq), Sub val,
           Lit (dq @ ''](''), Sub bbox, Lit ('');'' @ nl),
         Lit (''          way['' @ dq), Sub key, Lit (dq @ ''='' @ dq), Sub val,
           Lit (dq @ ''](''), Sub bbox, Lit ('');'' @ nl),
         Lit (''          relation['' @ dq), Sub key, Lit (dq @ ''='' @ dq), Sub val,
           Lit (dq @ ''](''), Sub bbox, Lit '');''])"

text \<open>The loop \<open>categories.forEach\<close> (lines 15 to 21), \<open>quest\<close> accumulated.\<close>

fun build_quest :: "jsval \<Rightarrow> string \<Rightarrow> jsval list \<Rightarrow> js_error + string" where
  "build_quest bbox quest [] = Inr quest"
| "build_quest bbox quest (category # categories) =
     bind_res (category_filters bbox category) (\<lambda>p. build_quest bbox (quest @ p) categories)"

definition overpass_url :: string where
  "overpass_url = ''https://overpass-api.de/api/interpreter''"

definition overpass_body :: "string \<Rightarrow> string" where
  "overpass_body quest =
     nl @ ''        [out:json][timeout:25];'' @ nl @
     ''        ('' @ nl @
     ''            '' @ quest @ nl @
     ''        );'' @ nl @
     ''        out body;'' @ nl @
     ''        >;'' @ nl @
     ''        out skel qt;''"

text \<open>
  The filter \<open>(p) => p.tags\<close> of line 32, over the elements in order: an element is
  kept when its \<open>tags\<close> is truthy; the read throws on a \<open>null\<close> element.
\<close>

fun filter_tags :: "jsval list \<Rightarrow> js_error + jsval list" where
  "filter_tags [] = Inr []"
| "filter_tags (p # ps) =
     bind_res (get_prop p ''tags'') (\<lambda>tags.
       bind_res (filter_tags ps) (\<lambda>kept. Inr (if truthy tags then p # kept else kept)))"

text \<open>
  The filter's test on an element that can be read: its \<open>tags\<close> is truthy. Next to
  it, the reading "the element carries at least one tag": its \<open>tags\<close> is an object
  with at least one entry.
\<close>

definition tags_truthy :: "jsval \<Rightarrow> bool" where
  "tags_truthy p = truthy (lookup (own_props p) ''tags'')"

definition carries_a_tag :: "jsval \<Rightarrow> bool" where
  "carries_a_tag p = (case lookup (own_props p) ''tags'' of JObj (kv # kvs) \<Rightarrow> True | _ \<Rightarrow> False)"

text \<open>The object \<open>{ ...p, ...p.tags }\<close> of line 33.\<close>

definition merge_tags :: "jsval \<Rightarrow> jsval \<Rightarrow> (string \<times> jsval) list" where
  "merge_tags p tags = spread (spread [] p) tags"

text \<open>
  The merge in words, to be compared with \<open>merge_tags\<close>: a key has the value of the
  element's tag of that name when there is one, and the value of the element's own field
  of that name otherwise. \<open>field_of v k\<close> is the property \<open>k\<close> of \<open>v\<close> as a
  spread copies it: of the own properties of that name the last one (the property
  list of a parsed JSON object holds a name once, and then it is that property).
\<close>

definition field_of :: "jsval \<Rightarrow> string \<Rightarrow> jsval option" where
  "field_of v k = map_of (rev (own_props v)) k"

definition merged_field :: "jsval \<Rightarrow> string \<Rightarrow> jsval" where
  "merged_field p k =
     (case field_of (lookup (own_props p) ''tags'') k of
        Some x \<Rightarrow> x
      | None \<Rightarrow> (case field_of p k of Some x \<Rightarrow> x | None \<Rightarrow> JUndefined))"

text \<open>The type that goes into the two URLs (line 35), from the merged object.\<close>

definition url_type :: "(string \<times> jsval) list \<Rightarrow> jsval" where
  "url_type p = (if truthy (lookup p ''members'') then JStr ''relation'' else lookup p ''type'')"

text \<open>Lines 36 to 38.\<close>

definition fill_website :: "(string \<times> jsval) list \<Rightarrow> (string \<times> jsval) list" where
  "fill_website p =
     (if \<not> truthy (lookup p ''website'') \<and> truthy (lookup p ''contact:website'')
      then obj_set ''website'' (lookup p ''contact:website'') p else p)"

text \<open>The callback of \<open>map\<close> (lines 32 to 42).\<close>

definition normalize_poi :: "jsval \<Rightarrow> js_error + jsval" where
  "normalize_poi p0 =
     bind_res (get_prop p0 ''tags'') (\<lambda>tags.
       let p1 = merge_tags p0 tags;
           p2 = obj_delete ''tags'' p1;
           type = url_type p2;
           p3 = fill_website p2
       in bind_res (template [Lit ''https://www.openstreetmap.org/'', Sub type, Lit ''/'',
                      Sub (lookup p3 ''id'')]) (\<lambda>osm_url.
            let p4 = obj_set ''osm_url'' (JStr osm_url) p3
            in bind_res (template [Lit ''https://www.openstreetmap.org/edit?'', Sub type,
                           Lit ''='', Sub (lookup p4 ''id'')]) (\<lambda>osm_url_edit.
                 Inr (JObj (obj_set ''osm_url_edit'' (JStr osm_url_edit) p4)))))"

text \<open>Line 32: what the operation makes of the parsed response \<open>data\<close>.\<close>

definition pois_of_response :: "jsval \<Rightarrow> js_error + jsval list" where
  "pois_of_response data =
     bind_res (get_prop data ''elements'') (\<lambda>elements.
       bind_res (array_elems elements) (\<lambda>ps.
         bind_res (filter_tags ps) (\<lambda>kept. map_res normalize_poi kept)))"

definition openstreetmapGetPOIs :: "fetch_json \<Rightarrow> jsval \<Rightarrow> jsval list \<Rightarrow> js_error + jsval list" where
  "openstreetmapGetPOIs fetch bbox categories =
     bind_res (build_quest bbox [] categories) (\<lambda>quest.
       bind_res (fetch (Post overpass_url (overpass_body quest))) (\<lambda>data.
         pois_of_response data))"

definition openstreetmapGetRestaurants :: "fetch_json \<Rightarrow> js_error + jsval list" where
  "openstreetmapGetRestaurants fetch =
     openstreetmapGetPOIs fetch (JStr ''37.8,-122.3,37.8,-122.2'')
       [JObj [(''key'', JStr ''amenity''), (''value'', JStr ''cafe'')],
        JObj [(''key'', JStr ''amenity''), (''value'', JStr ''restaurant'')]]"

text \<open>
  \<open>getFoodShops\<close> takes the map's bounds apart (a TypeError when they are
  \<open>undefined\<close> or \<open>null\<close>) and passes its categories as arrays of two strings.
\<close>

definition pair_of :: "string \<Rightarrow> string \<Rightarrow> jsval" where
  "pair_of k v = JArr [JStr k, JStr v] []"

definition getFoodShops :: "fetch_json \<Rightarrow> jsval \<Rightarrow> js_error + jsval list" where
  "getFoodShops fetch bounds =
     bind_res (get_prop bounds ''_northEast'') (\<lambda>northEast.
     bind_res (get_prop bounds ''_southWest'') (\<lambda>southWest.
     bind_res (get_prop southWest ''lat'') (\<lambda>s.
     bind_res (get_prop southWest ''lng'') (\<lambda>w.
     bind_res (get_prop northEast ''lat'') (\<lambda>n.
     bind_res (get_prop northEast ''lng'') (\<lambda>e.
     bind_res (join [s, w, n, e] '','') (\<lambda>bbox.
       openstreetmapGetPOIs fetch (JStr bbox)
         [pair_of ''amenity'' ''cafe'', pair_of ''amenity'' ''restaurant'',
          pair_of ''shop'' ''deli'', pair_of ''amenity'' ''ice_cream'',
          pair_of ''amenity'' ''fast_food''])))))))"

section \<open>Diet extraction\<close>

text \<open>
  A \<open>Set\<close> and a \<open>Map\<close> keep their entries in insertion order: a set is the list
  of its members without repetition, a map the list of its entries; an entry set again
  keeps its place.
\<close>

definition set_add :: "'a list \<Rightarrow> 'a \<Rightarrow> 'a list" where
  "set_add s x = (if x \<in> set s then s else s @ [x])"

definition map_set :: "('k \<times> 'v) list \<Rightarrow> 'k \<Rightarrow> 'v \<Rightarrow> ('k \<times> 'v) list" where
  "map_set m k v =
     (if k \<in> fst ` set m then map (\<lambda>(k', v'). if k' = k then (k', v) else (k', v')) m
      else m @ [(k, v)])"

text \<open>
  Line 68: the values added for \<open>poi.cuisine\<close>. The optional chain stops on
  \<open>undefined\<close> and \<open>null\<close>; any other value that is not a string has no
  \<open>split\<close>, and the call throws.
\<close>

definition cuisine_diets :: "jsval \<Rightarrow> js_error + jsval list" where
  "cuisine_diets poi =
     bind_res (get_prop poi ''cuisine'') (\<lambda>cuisine.
       case cuisine of
         JUndefined \<Rightarrow> Inr []
       | JNull \<Rightarrow> Inr []
       | JStr s \<Rightarrow> Inr (map (\<lambda>c. JStr (toLowerCase (trim c))) (split s CHR '';''))
       | _ \<Rightarrow> Inl TypeError)"

text \<open>\<open>key.split(`:`).at(1)\<close>: the second piece, \<open>undefined\<close> when there is one piece only.\<close>

definition diet_of_key :: "string \<Rightarrow> jsval" where
  "diet_of_key key = (case split key CHR '':'' of p0 # p1 # ps \<Rightarrow> JStr p1 | _ \<Rightarrow> JUndefined)"

text \<open>Lines 70 to 72: the values added for the keys of the POI.\<close>

definition key_diets :: "jsval \<Rightarrow> jsval list" where
  "key_diets poi =
     map diet_of_key
       (filter (\<lambda>key. startsWith key ''diet'' \<and> lookup (own_props poi) key = JStr ''yes'')
          (map fst (own_props poi)))"

text \<open>The set \<open>diets\<close> of one POI, after lines 68 to 72.\<close>

definition poi_diets :: "jsval \<Rightarrow> js_error + jsval list" where
  "poi_diets poi =
     bind_res (cuisine_diets poi) (\<lambda>cs. Inr (foldl set_add [] (cs @ key_diets poi)))"

text \<open>Lines 73 to 78: one diet of the set counted in \<open>dietsMap\<close>.\<close>

definition count_diet :: "(jsval \<times> nat) list \<Rightarrow> jsval \<Rightarrow> (jsval \<times> nat) list" where
  "count_diet dietsMap diet =
     (case map_of dietsMap diet of
        Some n \<Rightarrow> map_set dietsMap diet (n + 1)
      | None \<Rightarrow> map_set dietsMap diet 1)"

text \<open>The count that \<open>dietsMap\<close> holds for a diet, 0 when it has no entry.\<close>

definition map_count :: "('k \<times> nat) list \<Rightarrow> 'k \<Rightarrow> nat" where
  "map_count m k = (case map_of m k of Some n \<Rightarrow> n | None \<Rightarrow> 0)"

text \<open>The loop \<open>pois.forEach\<close> (lines 65 to 79).\<close>

fun scan_pois :: "(jsval \<times> nat) list \<Rightarrow> jsval list \<Rightarrow> js_error + (jsval \<times> nat) list" where
  "scan_pois dietsMap [] = Inr dietsMap"
| "scan_pois dietsMap (poi # pois) =
     bind_res (poi_diets poi) (\<lambda>diets. scan_pois (foldl count_diet dietsMap diets) pois)"

text \<open>
  \<open>Array.prototype.sort\<close> with a comparison function is stable and orders the array
  by it; on a list that is insertion sort from the right, an element staying in front
  of those it does not exceed.
\<close>

fun insert_cmp :: "('a \<Rightarrow> 'a \<Rightarrow> int) \<Rightarrow> 'a \<Rightarrow> 'a list \<Rightarrow> 'a list" where
  "insert_cmp cmp x [] = [x]"
| "insert_cmp cmp x (y # ys) =
     (if cmp x y \<le> 0 then x # y # ys else y # insert_cmp cmp x ys)"

definition sort_cmp :: "('a \<Rightarrow> 'a \<Rightarrow> int) \<Rightarrow> 'a list \<Rightarrow> 'a list" where
  "sort_cmp cmp xs = foldr (insert_cmp cmp) xs []"

definition by_count_desc :: "jsval \<times> nat \<Rightarrow> jsval \<times> nat \<Rightarrow> int" where
  "by_count_desc a b = int (snd b) - int (snd a)"

definition extractDiets :: "jsval list \<Rightarrow> js_error + (jsval \<times> nat) list" where
  "extractDiets pois =
     bind_res (scan_pois [] pois) (\<lambda>dietsMap. Inr (sort_cmp by_count_desc dietsMap))"

subsection \<open>The diets of a POI, in words\<close>

text \<open>
  The labels of a POI as the description of the extraction has them, to be compared
  with \<open>poi_diets\<close>: (a) the trimmed, lower-cased tokens of its semicolon-split
  \<open>cuisine\<close>; (b) for every key starting with \<open>diet\<close> whose value is exactly
  the string \<open>yes\<close>, the segment of the key after the first colon, which ends at
  the next colon or at the end of the key. A key without a colon has no such segment:
  its label is the nameless \<open>undefined\<close>.
\<close>

definition spec_cuisine_tokens :: "jsval \<Rightarrow> jsval list" where
  "spec_cuisine_tokens poi =
     (case lookup (own_props poi) ''cuisine'' of
        JStr s \<Rightarrow> map (\<lambda>token. JStr (toLowerCase (trim token))) (split s CHR '';'')
      | _ \<Rightarrow> [])"

definition segment_after_colon :: "string \<Rightarrow> jsval" where
  "segment_after_colon key =
     (case dropWhile (\<lambda>c. c \<noteq> CHR '':'') key of
        [] \<Rightarrow> JUndefined
      | colon # rest \<Rightarrow> JStr (takeWhile (\<lambda>c. c \<noteq> CHR '':'') rest))"

definition spec_diet_names :: "jsval \<Rightarrow> jsval list" where
  "spec_diet_names poi =
     map segment_after_colon
       (filter (\<lambda>key. startsWith key ''diet'' \<and> lookup (own_props poi) key = JStr ''yes'')
          (map fst (own_props poi)))"

definition spec_labels :: "jsval \<Rightarrow> jsval set" where
  "spec_labels poi = set (spec_cuisine_tokens poi) \<union> set (spec_diet_names poi)"

text \<open>
  The order of discovery: the values handed to \<open>diets.add\<close> while the POIs are
  scanned, in the order of the calls; \<open>precedes a b xs\<close> says that \<open>a\<close> occurs
  in \<open>xs\<close> and does so before any \<open>b\<close>.
\<close>

definition added_diets :: "jsval \<Rightarrow> jsval list" where
  "added_diets poi = (case cuisine_diets poi of Inr cs \<Rightarrow> cs @ key_diets poi | Inl e \<Rightarrow> [])"

definition encounters :: "jsval list \<Rightarrow> jsval list" where
  "encounters pois = concat (map added_diets pois)"

fun precedes :: "'a \<Rightarrow> 'a \<Rightarrow> 'a list \<Rightarrow> bool" where
  "precedes a b [] = False"
| "precedes a b (x # xs) = (if x = a then b \<noteq> a else if x = b then False else precedes a b xs)"

section \<open>Wikipedia and Wikimedia Commons\<close>

text \<open>
  \<open>wikidataQuery\<close> (lines 96 to 117) sends a SPARQL query and returns the bindings
  of the response; none of the properties below concerns it, and it is left out.
\<close>




definition wikimediaQuery_url :: "jsval \<Rightarrow> jsval \<Rightarrow> jsval \<Rightarrow> js_error + string" where
  "wikimediaQuery_url northEast southWest limit =
     bind_res (get_prop northEast ''lat'') (\<lambda>n.
     bind_res (get_prop southWest ''lng'') (\<lambda>w.
     bind_res (get_prop southWest ''lat'') (\<lambda>s.
     bind_res (get_prop northEast ''lng'') (\<lambda>e.
       template [Lit ''https://commons.wikimedia.org/w/api.php'',
         Lit ''?action=query&list=geosearch&gsbbox='', Sub n, Lit ''%7C'', Sub w, Lit ''%7C'',
         Sub s, Lit ''%7C'', Sub e, Lit ''&gsnamespace=6&gslimit='', Sub limit,
         Lit ''&format=json&origin=*'']))))"

text \<open>Lines 123 to 128: what \<open>wikimediaQuery\<close> makes of the parsed response \<open>d\<close>.\<close>

definition hits_of_response :: "jsval \<Rightarrow> js_error + jsval" where
  "hits_of_response d =
     bind_res (get_prop d ''error'') (\<lambda>error.
       if truthy error then Inl (Rejected error)
       else bind_res (get_prop d ''query'') (\<lambda>query.
              bind_res (get_prop query ''geosearch'') (\<lambda>geosearch.
                Inr (if truthy geosearch then geosearch else JArr [] []))))"

definition wikimediaQuery :: "fetch_json \<Rightarrow> jsval \<Rightarrow> jsval \<Rightarrow> jsval \<Rightarrow> js_error + jsval" where
  "wikimediaQuery fetch northEast southWest limit0 =
     (let limit = default_arg (JNum 100) limit0
      in bind_res (wikimediaQuery_url northEast southWest limit) (\<lambda>q.
           bind_res (fetch (Get q)) (\<lambda>d. hits_of_response d)))"

text \<open>\<open>wikimediaInfoMultiplePages\<close> (lines 133 to 140), on an array of page ids.\<close>

definition wikimediaInfoMultiplePages :: "fetch_json \<Rightarrow> jsval list \<Rightarrow> jsval \<Rightarrow> js_error + jsval" where
  "wikimediaInfoMultiplePages fetch pageids thumbWidth0 =
     (let thumbWidth = default_arg (JNum 600) thumbWidth0
      in bind_res (join pageids ''|'') (\<lambda>pageidsStr.
           bind_res (template [Lit ''https://commons.wikimedia.org/w/api.php'',
                       Lit ''?action=query&pageids='', Sub (JStr pageidsStr),
                       Lit ''&prop=imageinfo&iiprop=extmetadata|url&format=json&origin=*&iiurlwidth='',
                       Sub thumbWidth]) (\<lambda>q.
             bind_res (fetch (Get q)) (\<lambda>d.
               bind_res (get_prop d ''query'') (\<lambda>query. get_prop query ''pages'')))))"

text \<open>\<open>info.extmetadata.X.value\<close>.\<close>

definition extmetadata_value :: "jsval \<Rightarrow> string \<Rightarrow> js_error + jsval" where
  "extmetadata_value info field =
     bind_res (get_prop info ''extmetadata'') (\<lambda>extmetadata.
       bind_res (get_prop extmetadata field) (\<lambda>entry. get_prop entry ''value''))"

text \<open>
  \<open>wikimediaInfo\<close> (lines 144 to 153). The page id is the key of \<open>infos[pageid]\<close>
  as its string.
\<close>

definition wikimediaInfo :: "fetch_json \<Rightarrow> jsval \<Rightarrow> jsval \<Rightarrow> js_error + jsval" where
  "wikimediaInfo fetch pageid thumbWidth0 =
     (let thumbWidth = default_arg (JNum 600) thumbWidth0
      in bind_res (wikimediaInfoMultiplePages fetch [pageid] thumbWidth) (\<lambda>infos.
         bind_res (to_string pageid) (\<lambda>key.
         bind_res (get_prop infos key) (\<lambda>page.
         bind_res (get_prop page ''imageinfo'') (\<lambda>imageinfo.
         bind_res (get_prop imageinfo ''0'') (\<lambda>info.
         bind_res (extmetadata_value info ''ObjectName'') (\<lambda>name.
         bind_res (extmetadata_value info ''DateTime'') (\<lambda>date.
         bind_res (extmetadata_value info ''Categories'') (\<lambda>categories.
         bind_res (extmetadata_value info ''ImageDescription'') (\<lambda>description.
         bind_res (extmetadata_value info ''Artist'') (\<lambda>artistHtml.
           Inr (JObj (spread [(''name'', name), (''date'', date), (''categories'', categories),
                  (''description'', description), (''artistHtml'', artistHtml)] info)))))))))))))"

section \<open>Example inputs\<close>

definition corner :: "int \<Rightarrow> int \<Rightarrow> jsval" where
  "corner lat lng = JObj [(''lat'', JNum lat), (''lng'', JNum lng)]"

text \<open>Three bodies of the Commons API: an error, one hit, and a body with no \<open>query\<close>.\<close>

definition commons_error :: jsval where
  "commons_error =
     JObj [(''error'', JObj [(''code'', JStr ''badvalue''), (''info'', JStr ''Invalid bounding box'')])]"

definition commons_hits :: jsval where
  "commons_hits =
     JObj [(''batchcomplete'', JStr []),
           (''query'', JObj [(''geosearch'',
              JArr [JObj [(''pageid'', JNum 12), (''title'', JStr ''File:Pier.jpg'')]] [])])]"

definition commons_no_query :: jsval where
  "commons_no_query = JObj [(''batchcomplete'', JStr [])]"

text \<open>A body of the image-info query that knows page 12 only.\<close>

definition commons_pages :: jsval where
  "commons_pages =
     JObj [(''query'', JObj [(''pages'',
        JObj [(''12'', JObj [(''pageid'', JNum 12), (''title'', JStr ''File:Pier.jpg'')])])])]"


text \<open>
  Overpass replies: a relation whose tags hold the usual \<open>type\<close> tag, a relation
  reported without a \<open>type\<close> of its own, a reply with an element whose tag
  container is empty next to an untagged node, and a reply with a cafe next to an
  untagged node.
\<close>

definition member_way :: jsval where
  "member_way = JObj [(''type'', JStr ''way''), (''ref'', JNum 41), (''role'', JStr ''outer'')]"



definition multipolygon_element :: jsval where
  "multipolygon_element =
     JObj [(''type'', JStr ''relation''), (''id'', JNum 7), (''members'', JArr [member_way] []),
           (''tags'', JObj [(''amenity'', JStr ''cafe''), (''type'', JStr ''multipolygon'')])]"

definition overpass_multipolygon :: jsval where
  "overpass_multipolygon = JObj [(''elements'', JArr [multipolygon_element] [])]"

definition untyped_element :: jsval where
  "untyped_element =
     JObj [(''id'', JNum 8), (''members'', JArr [member_way] []),
           (''tags'', JObj [(''amenity'', JStr ''cafe'')])]"

definition overpass_untyped :: jsval where
  "overpass_untyped = JObj [(''elements'', JArr [untyped_element] [])]"

definition empty_tags_node :: jsval where
  "empty_tags_node = JObj [(''type'', JStr ''node''), (''id'', JNum 1), (''tags'', JObj [])]"

definition overpass_empty_tags :: jsval where
  "overpass_empty_tags =
     JObj [(''elements'', JArr
       [empty_tags_node, JObj [(''type'', JStr ''node''), (''id'', JNum 2)]] [])]"

definition cafe_element :: jsval where
  "cafe_element =
     JObj [(''type'', JStr ''node''), (''id'', JNum 3), (''lat'', JNum 37), (''lon'', JNum (- 122)),
           (''tags'', JObj [(''amenity'', JStr ''cafe''), (''contact:website'', JStr ''http://a.example'')])]"

definition cafe_elements :: "jsval list" where
  "cafe_elements = [cafe_element, JObj [(''type'', JStr ''node''), (''id'', JNum 2)]]"

definition overpass_cafe :: jsval where
  "overpass_cafe = JObj [(''elements'', JArr cafe_elements [])]"

definition demo_bbox :: jsval where
  "demo_bbox = JStr ''37.8,-122.3,37.8,-122.2''"


definition multipolygon_poi :: "(string \<times> jsval) list" where
  "multipolygon_poi =
     [(''type'', JStr ''multipolygon''), (''id'', JNum 7), (''members'', JArr [member_way] []),
      (''amenity'', JStr ''cafe''),
      (''osm_url'', JStr ''https://www.openstreetmap.org/relation/7''),
      (''osm_url_edit'', JStr ''https://www.openstreetmap.org/edit?relation=7'')]"

definition untyped_poi :: "(string \<times> jsval) list" where
  "untyped_poi =
     [(''id'', JNum 8), (''members'', JArr [member_way] []), (''amenity'', JStr ''cafe''),
      (''osm_url'', JStr ''https://www.openstreetmap.org/relation/8''),
      (''osm_url_edit'', JStr ''https://www.openstreetmap.org/edit?relation=8'')]"

definition cafe_poi :: "(string \<times> jsval) list" where
  "cafe_poi =
     [(''type'', JStr ''node''), (''id'', JNum 3), (''lat'', JNum 37), (''lon'', JNum (- 122)),
      (''amenity'', JStr ''cafe''), (''contact:website'', JStr ''http://a.example''),
      (''website'', JStr ''http://a.example''),
      (''osm_url'', JStr ''https://www.openstreetmap.org/node/3''),
      (''osm_url_edit'', JStr ''https://www.openstreetmap.org/edit?node=3'')]"

definition empty_tags_poi :: "(string \<times> jsval) list" where
  "empty_tags_poi =
     [(''type'', JStr ''node''), (''id'', JNum 1),
      (''osm_url'', JStr ''https://www.openstreetmap.org/node/1''),
      (''osm_url_edit'', JStr ''https://www.openstreetmap.org/edit?node=1'')]"

definition cafe_categories :: "jsval list" where
  "cafe_categories = [pair_of ''amenity'' ''cafe'']"


definition four_restaurants :: "jsval list" where
  "four_restaurants =
     [JObj [(''name'', JStr ''A''), (''cuisine'', JStr ''italian;pizza''), (''diet:vegan'', JStr ''yes'')],
      JObj [(''name'', JStr ''B''), (''cuisine'', JStr ''Thai ; vegan'')],
      JObj [(''name'', JStr ''C''), (''cuisine'', JStr ''thai''), (''diet:halal'', JStr ''no'')],
      JObj [(''name'', JStr ''D''), (''diet'', JStr ''yes''), (''diet:kosher:strict'', JStr ''yes'')]]"

definition bare_diet_restaurant :: jsval where
  "bare_diet_restaurant = JObj [(''name'', JStr ''D''), (''diet'', JStr ''yes'')]"

section \<open>Basic facts\<close>

lemma bind_res_Inl [simp]: "bind_res (Inl e) f = Inl e"
  by (simp add: bind_res_def)

lemma bind_res_Inr [simp]: "bind_res (Inr x) f = f x"
  by (simp add: bind_res_def)

lemma bind_res_eq_Inr: "bind_res m f = Inr y \<longleftrightarrow> (\<exists>x. m = Inr x \<and> f x = Inr y)"
  by (cases m) simp_all

lemma lookup_absent: "k \<notin> fst ` set kvs \<Longrightarrow> lookup kvs k = JUndefined"
  by (simp add: lookup_def map_of_eq_None_iff [THEN iffD2])

lemma map_of_overwrite:
  "map_of (map (\<lambda>(k', v'). if k' = k then (k', v) else (k', v')) xs) k' =
     (if k' = k then (if k \<in> fst ` set xs then Some v else None) else map_of xs k')"
  by (induction xs) (auto split: if_splits)

lemma map_of_obj_set: "map_of (obj_set k v kvs) k' = (if k' = k then Some v else map_of kvs k')"
proof (cases "k \<in> fst ` set kvs")
  case False
  then have "map_of kvs k = None" by (simp add: map_of_eq_None_iff)
  with False show ?thesis by (simp add: obj_set_def map_add_def split: option.splits)
next
  case True
  then show ?thesis by (simp add: obj_set_def map_of_overwrite)
qed

lemma lookup_obj_set: "lookup (obj_set k v kvs) k' = (if k' = k then v else lookup kvs k')"
  by (simp add: lookup_def map_of_obj_set)

lemma keys_obj_set: "fst ` set (obj_set k v kvs) = insert k (fst ` set kvs)"
  by (force simp: obj_set_def image_iff split: if_splits)

lemma keys_obj_delete: "fst ` set (obj_delete k kvs) = fst ` set kvs - {k}"
  by (force simp: obj_delete_def image_iff)







lemma category_filters_pair:
  "category_filters (JStr bbox) (pair_of k v) =
     Inr (nl @ ''          node['' @ dq @ k @ dq @ ''='' @ dq @ v @ dq @ '']('' @ bbox @ '');'' @ nl @
          ''          way['' @ dq @ k @ dq @ ''='' @ dq @ v @ dq @ '']('' @ bbox @ '');'' @ nl @
          ''          relation['' @ dq @ k @ dq @ ''='' @ dq @ v @ dq @ '']('' @ bbox @ '');'')"
  by (simp add: category_filters_def pair_of_def item_def)

lemma wikimediaQuery_url_example:
  "wikimediaQuery_url (corner 38 (- 122)) (corner 37 (- 123)) (JNum 100) =
     Inr ''https://commons.wikimedia.org/w/api.php?action=query&list=geosearch&gsbbox=38%7C-123%7C37%7C-122&gsnamespace=6&gslimit=100&format=json&origin=*''"
  by (simp add: wikimediaQuery_url_def corner_def lookup_def show_int_def show_nat.simps digit_char_def)




lemma get_prop_own:
  "get_prop p k = Inr v \<Longrightarrow> k \<noteq> ''length'' \<Longrightarrow> v = lookup (own_props p) k"
  by (cases p) (auto simp: lookup_def)

lemma filter_tags_eq:
  "filter_tags ps = Inr kept \<Longrightarrow> kept = filter tags_truthy ps"
proof (induction ps arbitrary: kept)
  case Nil
  then show ?case by simp
next
  case (Cons p ps)
  from Cons.prems obtain tags kept' where
    t: "get_prop p ''tags'' = Inr tags" and k: "filter_tags ps = Inr kept'"
    and r: "kept = (if truthy tags then p # kept' else kept')"
    by (auto simp: bind_res_eq_Inr)
  from t have "tags = lookup (own_props p) ''tags''" by (rule get_prop_own) simp
  with r Cons.IH [OF k] show ?case by (simp add: tags_truthy_def)
qed

lemma filter_tags_readable:
  "filter_tags ps = Inr kept \<Longrightarrow> p \<in> set ps \<Longrightarrow> \<exists>tags. get_prop p ''tags'' = Inr tags"
  by (induction ps arbitrary: kept) (auto simp: bind_res_eq_Inr)

lemma map_res_list_all2:
  "map_res f xs = Inr ys \<Longrightarrow> list_all2 (\<lambda>x y. f x = Inr y) xs ys"
  by (induction xs arbitrary: ys) (auto simp: bind_res_eq_Inr)

lemma lookup_obj_delete:
  "k' \<noteq> k \<Longrightarrow> lookup (obj_delete k kvs) k' = lookup kvs k'"
  unfolding lookup_def obj_delete_def by (induction kvs) auto

lemma lookup_fill_website:
  "k \<noteq> ''website'' \<Longrightarrow> lookup (fill_website p) k = lookup p k"
  by (simp add: fill_website_def lookup_obj_set)

lemma keys_fill_website:
  "fst ` set (fill_website p) \<subseteq> insert ''website'' (fst ` set p)"
  by (simp add: fill_website_def keys_obj_set subset_insertI)

lemma template_two_subs:
  "template [Lit a, Sub x, Lit b, Sub y] = Inr s \<longleftrightarrow>
     (\<exists>t i. to_string x = Inr t \<and> to_string y = Inr i \<and> s = a @ t @ b @ i)"
  by (auto simp: bind_res_eq_Inr)

lemma lookup_foldl_obj_set:
  "lookup (foldl (\<lambda>kvs (k, x). obj_set k x kvs) acc ps) k =
     (case map_of (rev ps) k of Some x \<Rightarrow> x | None \<Rightarrow> lookup acc k)"
proof (induction ps arbitrary: acc)
  case Nil
  show ?case by simp
next
  case (Cons kx ps)
  obtain k' x where kx: "kx = (k', x)" by (cases kx)
  show ?case
    unfolding kx using Cons.IH [of "obj_set k' x acc"]
    by (simp add: lookup_obj_set map_add_def split: option.splits)
qed

lemma keys_foldl_obj_set:
  "fst ` set (foldl (\<lambda>kvs (k, x). obj_set k x kvs) acc ps) = fst ` set acc \<union> fst ` set ps"
proof (induction ps arbitrary: acc)
  case Nil
  show ?case by simp
next
  case (Cons kx ps)
  obtain k' x where kx: "kx = (k', x)" by (cases kx)
  show ?case
    unfolding kx using Cons.IH [of "obj_set k' x acc"]
    by (simp add: keys_obj_set)
qed

lemma lookup_spread:
  "lookup (spread acc v) k = (case field_of v k of Some x \<Rightarrow> x | None \<Rightarrow> lookup acc k)"
  by (simp add: spread_def field_of_def lookup_foldl_obj_set)

lemma keys_spread: "fst ` set (spread acc v) = fst ` set acc \<union> fst ` set (own_props v)"
  by (simp add: spread_def keys_foldl_obj_set)

lemma lookup_merge_tags:
  "lookup (merge_tags p (lookup (own_props p) ''tags'')) k = merged_field p k"
proof -
  have "lookup [] k = JUndefined" by (simp add: lookup_def)
  then show ?thesis
    by (simp only: merge_tags_def merged_field_def lookup_spread)
qed

lemma keys_merge_tags:
  "fst ` set (merge_tags p tags) = fst ` set (own_props p) \<union> fst ` set (own_props tags)"
  by (simp add: merge_tags_def keys_spread)

lemma field_of_distinct:
  assumes "distinct (map fst (own_props v))"
  shows "field_of v k = map_of (own_props v) k"
proof -
  from assms have "distinct (map fst (rev (own_props v)))" by (simp add: rev_map [symmetric])
  with assms have "map_of (rev (own_props v)) = map_of (own_props v)"
    by (simp add: map_of_inject_set)
  then show ?thesis by (simp add: field_of_def)
qed

lemma keys_fill_website_sup: "fst ` set p \<subseteq> fst ` set (fill_website p)"
  by (auto simp: fill_website_def keys_obj_set)

lemma lookup_website_fill:
  "lookup (fill_website p) ''website'' =
     (if \<not> truthy (lookup p ''website'') \<and> truthy (lookup p ''contact:website'')
      then lookup p ''contact:website'' else lookup p ''website'')"
  by (simp add: fill_website_def lookup_obj_set)

lemma normalize_poi_fields:
  assumes "normalize_poi p = Inr r"
  shows "\<exists>kvs t i.
           r = JObj kvs \<and> ''tags'' \<notin> fst ` set kvs
         \<and> (\<forall>k. k \<notin> {''tags'', ''website'', ''osm_url'', ''osm_url_edit''} \<longrightarrow>
               lookup kvs k = merged_field p k)
         \<and> (\<forall>k \<in> fst ` set (own_props (lookup (own_props p) ''tags'')).
               k \<noteq> ''tags'' \<longrightarrow> k \<in> fst ` set kvs)
         \<and> lookup kvs ''website'' =
             (if \<not> truthy (merged_field p ''website'') \<and> truthy (merged_field p ''contact:website'')
              then merged_field p ''contact:website'' else merged_field p ''website'')
         \<and> to_string (url_type kvs) = Inr t \<and> to_string (lookup kvs ''id'') = Inr i
         \<and> lookup kvs ''osm_url'' = JStr (''https://www.openstreetmap.org/'' @ t @ ''/'' @ i)
         \<and> lookup kvs ''osm_url_edit'' = JStr (''https://www.openstreetmap.org/edit?'' @ t @ ''='' @ i)"
proof -
  from assms obtain tags where tags: "get_prop p ''tags'' = Inr tags"
    by (auto simp: normalize_poi_def bind_res_eq_Inr)
  from tags have tags_eq: "tags = lookup (own_props p) ''tags''"
    by (rule get_prop_own) simp
  define p2 where "p2 = obj_delete ''tags'' (merge_tags p tags)"
  define p3 where "p3 = fill_website p2"
  from assms tags obtain u e where
    u: "template [Lit ''https://www.openstreetmap.org/'', Sub (url_type p2), Lit ''/'',
          Sub (lookup p3 ''id'')] = Inr u"
    and e: "template [Lit ''https://www.openstreetmap.org/edit?'', Sub (url_type p2), Lit ''='',
          Sub (lookup (obj_set ''osm_url'' (JStr u) p3) ''id'')] = Inr e"
    and r: "r = JObj (obj_set ''osm_url_edit'' (JStr e) (obj_set ''osm_url'' (JStr u) p3))"
    unfolding normalize_poi_def p2_def p3_def Let_def
    by (auto simp: bind_res_eq_Inr simp del: template.simps)
  define kvs where "kvs = obj_set ''osm_url_edit'' (JStr e) (obj_set ''osm_url'' (JStr u) p3)"
  from u obtain t i where t: "to_string (url_type p2) = Inr t"
    and i: "to_string (lookup p3 ''id'') = Inr i"
    and u': "u = ''https://www.openstreetmap.org/'' @ t @ ''/'' @ i"
    unfolding template_two_subs by blast
  from e t i have e': "e = ''https://www.openstreetmap.org/edit?'' @ t @ ''='' @ i"
    unfolding template_two_subs by (simp add: lookup_obj_set)
  have del: "k \<noteq> ''tags'' \<Longrightarrow> lookup p2 k = merged_field p k" for k
    by (simp add: p2_def lookup_obj_delete tags_eq lookup_merge_tags)
  have keep: "k \<notin> {''website'', ''osm_url'', ''osm_url_edit''} \<Longrightarrow> lookup kvs k = lookup p2 k" for k
    by (simp add: kvs_def p3_def lookup_obj_set lookup_fill_website)
  have fields: "\<forall>k. k \<notin> {''tags'', ''website'', ''osm_url'', ''osm_url_edit''} \<longrightarrow>
      lookup kvs k = merged_field p k"
    using del keep by simp
  have keys2: "fst ` set p2 = (fst ` set (own_props p) \<union> fst ` set (own_props tags)) - {''tags''}"
    by (simp add: p2_def keys_obj_delete keys_merge_tags)
  then have notags: "''tags'' \<notin> fst ` set kvs"
    using keys_fill_website [of p2] by (auto simp: kvs_def p3_def keys_obj_set)
  have "fst ` set p2 \<subseteq> fst ` set kvs"
    using keys_fill_website_sup [of p2] by (auto simp: kvs_def p3_def keys_obj_set)
  with keys2 have tagkeys: "\<forall>k \<in> fst ` set (own_props (lookup (own_props p) ''tags'')).
      k \<noteq> ''tags'' \<longrightarrow> k \<in> fst ` set kvs"
    unfolding tags_eq by blast
  have "lookup kvs ''website'' = lookup p3 ''website''"
    by (simp add: kvs_def lookup_obj_set)
  then have web: "lookup kvs ''website'' =
             (if \<not> truthy (merged_field p ''website'') \<and> truthy (merged_field p ''contact:website'')
              then merged_field p ''contact:website'' else merged_field p ''website'')"
    by (simp add: p3_def lookup_website_fill del)
  have ty: "url_type kvs = url_type p2"
    by (simp add: url_type_def keep)
  have id: "lookup kvs ''id'' = lookup p3 ''id''"
    by (simp add: kvs_def lookup_obj_set)
  have urls: "lookup kvs ''osm_url'' = JStr u" "lookup kvs ''osm_url_edit'' = JStr e"
    by (simp_all add: kvs_def lookup_obj_set)
  from r have "r = JObj kvs" by (simp add: kvs_def)
  with notags fields tagkeys web ty id t i u' e' urls show ?thesis
    by (intro exI [of _ kvs] exI [of _ t] exI [of _ i]) simp
qed

lemma openstreetmapGetPOIs_normalized:
  assumes "build_quest bbox [] categories = Inr quest"
    and "fetch (Post overpass_url (overpass_body quest)) = Inr data"
    and "get_prop data ''elements'' = Inr (JArr elems named)"
    and "openstreetmapGetPOIs fetch bbox categories = Inr out"
  shows "list_all2 (\<lambda>p r. normalize_poi p = Inr r) (filter tags_truthy elems) out"
proof -
  from assms obtain kept where k: "filter_tags elems = Inr kept"
    and m: "map_res normalize_poi kept = Inr out"
    by (auto simp: openstreetmapGetPOIs_def pois_of_response_def bind_res_eq_Inr)
  from filter_tags_eq [OF k] map_res_list_all2 [OF m] show ?thesis by simp
qed

lemma relation_urls_of_fields:
  assumes f: "\<forall>k. k \<notin> {''tags'', ''website'', ''osm_url'', ''osm_url_edit''} \<longrightarrow>
               lookup kvs k = merged_field p k"
    and t: "to_string (url_type kvs) = Inr t" and i: "to_string (lookup kvs ''id'') = Inr i"
    and u: "lookup kvs ''osm_url'' = JStr (''https://www.openstreetmap.org/'' @ t @ ''/'' @ i)"
    and e: "lookup kvs ''osm_url_edit'' = JStr (''https://www.openstreetmap.org/edit?'' @ t @ ''='' @ i)"
  shows "lookup kvs ''type'' = merged_field p ''type''
       \<and> lookup kvs ''members'' = merged_field p ''members''
       \<and> lookup kvs ''id'' = merged_field p ''id''
       \<and> (truthy (merged_field p ''members'') \<longrightarrow>
            (\<exists>i. to_string (merged_field p ''id'') = Inr i \<and>
               lookup kvs ''osm_url'' =
                 JStr (''https://www.openstreetmap.org/relation/'' @ i) \<and>
               lookup kvs ''osm_url_edit'' =
                 JStr (''https://www.openstreetmap.org/edit?relation='' @ i)))"
proof -
  from f have ty: "lookup kvs ''type'' = merged_field p ''type''"
    and me: "lookup kvs ''members'' = merged_field p ''members''"
    and id: "lookup kvs ''id'' = merged_field p ''id''"
    by simp_all
  have "\<exists>i. to_string (merged_field p ''id'') = Inr i \<and>
          lookup kvs ''osm_url'' = JStr (''https://www.openstreetmap.org/relation/'' @ i) \<and>
          lookup kvs ''osm_url_edit'' = JStr (''https://www.openstreetmap.org/edit?relation='' @ i)"
    if m: "truthy (merged_field p ''members'')"
  proof -
    from m me have "url_type kvs = JStr ''relation''" by (simp add: url_type_def)
    with t have t': "t = ''relation''" by simp
    from i id have "to_string (merged_field p ''id'') = Inr i" by simp
    moreover from u t' have
      "lookup kvs ''osm_url'' = JStr (''https://www.openstreetmap.org/relation/'' @ i)"
      by simp
    moreover from e t' have
      "lookup kvs ''osm_url_edit'' = JStr (''https://www.openstreetmap.org/edit?relation='' @ i)"
      by simp
    ultimately show ?thesis by (intro exI [of _ i] conjI)
  qed
  with ty me id show ?thesis by (intro conjI impI)
qed

lemma cafe_query_result:
  "openstreetmapGetPOIs (canned overpass_cafe) demo_bbox cafe_categories = Inr [JObj cafe_poi]"
  by code_simp

lemma multipolygon_query_result:
  "openstreetmapGetPOIs (canned overpass_multipolygon) demo_bbox cafe_categories =
     Inr [JObj multipolygon_poi]"
  by code_simp

lemma openstreetmapGetPOIs_kept:
  assumes "build_quest bbox [] categories = Inr quest"
    and "fetch (Post overpass_url (overpass_body quest)) = Inr (JObj body)"
    and "lookup body ''elements'' = JArr elems named"
    and "openstreetmapGetPOIs fetch bbox categories = Inr out"
  shows "list_all2 (\<lambda>p r. normalize_poi p = Inr r) (filter tags_truthy elems) out"
proof -
  from assms obtain kept where k: "filter_tags elems = Inr kept"
    and m: "map_res normalize_poi kept = Inr out"
    by (auto simp: openstreetmapGetPOIs_def pois_of_response_def bind_res_eq_Inr)
  from filter_tags_eq [OF k] map_res_list_all2 [OF m] show ?thesis by simp
qed

lemma carries_a_tag_truthy: "carries_a_tag p \<Longrightarrow> tags_truthy p"
  by (auto simp: carries_a_tag_def tags_truthy_def split: jsval.splits list.splits)

lemma no_tags_not_truthy: "lookup (own_props p) ''tags'' = JUndefined \<Longrightarrow> \<not> tags_truthy p"
  by (simp add: tags_truthy_def)

subsection \<open>Sets and maps in insertion order\<close>

lemma map_of_map_set:
  "map_of (map_set m k v) k' = (if k' = k then Some v else map_of m k')"
proof (cases "k \<in> fst ` set m")
  case False
  then have "map_of m k = None" by (simp add: map_of_eq_None_iff)
  with False show ?thesis by (simp add: map_set_def map_add_def split: option.splits)
next
  case True
  then show ?thesis by (simp add: map_set_def map_of_overwrite)
qed

lemma keys_overwrite:
  "map fst (map (\<lambda>(k', v'). if k' = k then (k', v) else (k', v')) m) = map fst m"
  by (induction m) auto

lemma keys_map_set: "map fst (map_set m k v) = set_add (map fst m) k"
proof (cases "k \<in> fst ` set m")
  case True
  then have "map_set m k v = map (\<lambda>(k', v'). if k' = k then (k', v) else (k', v')) m"
    by (simp add: map_set_def)
  then have "map fst (map_set m k v) = map fst m"
    by (simp only: keys_overwrite)
  moreover from True have "set_add (map fst m) k = map fst m"
    by (simp add: set_add_def)
  ultimately show ?thesis by simp
next
  case False
  then show ?thesis by (simp add: map_set_def set_add_def)
qed

lemma map_of_count_diet:
  "map_of (count_diet m d) l = (if l = d then Some (map_count m d + 1) else map_of m l)"
  by (simp add: count_diet_def map_count_def map_of_map_set split: option.splits)

lemma map_count_count_diet:
  "map_count (count_diet m d) l = map_count m l + (if l = d then 1 else 0)"
  by (simp add: map_count_def map_of_count_diet)

lemma keys_count_diet: "map fst (count_diet m d) = set_add (map fst m) d"
  by (simp add: count_diet_def keys_map_set split: option.splits)

lemma map_count_foldl:
  "map_count (foldl count_diet m ds) l = map_count m l + count_list ds l"
  by (induction ds arbitrary: m) (simp_all add: map_count_count_diet)

lemma keys_foldl_count_diet:
  "map fst (foldl count_diet m ds) = foldl set_add (map fst m) ds"
  by (induction ds arbitrary: m) (simp_all add: keys_count_diet)

lemma no_zero_foldl:
  "\<forall>l. map_of m l \<noteq> Some 0 \<Longrightarrow> map_of (foldl count_diet m ds) l \<noteq> Some 0"
  by (induction ds arbitrary: m l) (simp_all add: map_of_count_diet)

lemma distinct_set_add: "distinct s \<Longrightarrow> distinct (set_add s x)"
  by (simp add: set_add_def)

lemma distinct_foldl_set_add: "distinct s \<Longrightarrow> distinct (foldl set_add s xs)"
  by (induction xs arbitrary: s) (simp_all add: distinct_set_add)

lemma set_foldl_set_add: "set (foldl set_add s xs) = set s \<union> set xs"
  by (induction xs arbitrary: s) (auto simp: set_add_def)

lemma count_list_distinct: "distinct xs \<Longrightarrow> count_list xs x = (if x \<in> set xs then 1 else 0)"
  by (induction xs) auto

subsection \<open>Splitting\<close>

lemma split_acc_unfold:
  "split_acc sep acc s =
     (case dropWhile (\<lambda>c. c \<noteq> sep) s of
        [] \<Rightarrow> [rev acc @ s]
      | c # rest \<Rightarrow> (rev acc @ takeWhile (\<lambda>c. c \<noteq> sep) s) # split_acc sep [] rest)"
proof (induction s arbitrary: acc)
  case Nil
  show ?case by simp
next
  case (Cons a s)
  show ?case
  proof (cases "a = sep")
    case True
    then show ?thesis by simp
  next
    case False
    then have "split_acc sep acc (a # s) = split_acc sep (a # acc) s" by simp
    also have "\<dots> = (case dropWhile (\<lambda>c. c \<noteq> sep) s of
        [] \<Rightarrow> [rev (a # acc) @ s]
      | c # rest \<Rightarrow> (rev (a # acc) @ takeWhile (\<lambda>c. c \<noteq> sep) s) # split_acc sep [] rest)"
      by (rule Cons.IH)
    also have "\<dots> = (case dropWhile (\<lambda>c. c \<noteq> sep) (a # s) of
        [] \<Rightarrow> [rev acc @ a # s]
      | c # rest \<Rightarrow> (rev acc @ takeWhile (\<lambda>c. c \<noteq> sep) (a # s)) # split_acc sep [] rest)"
    proof -
      from False have d: "dropWhile (\<lambda>c. c \<noteq> sep) (a # s) = dropWhile (\<lambda>c. c \<noteq> sep) s"
        and t: "takeWhile (\<lambda>c. c \<noteq> sep) (a # s) = a # takeWhile (\<lambda>c. c \<noteq> sep) s"
        by simp_all
      show ?thesis
        unfolding d t by (cases "dropWhile (\<lambda>c. c \<noteq> sep) s") (simp_all only: list.case, simp_all)
    qed
    finally show ?thesis .
  qed
qed

lemma split_first_piece: "\<exists>ps. split s sep = takeWhile (\<lambda>c. c \<noteq> sep) s # ps"
proof (cases "dropWhile (\<lambda>c. c \<noteq> sep) s")
  case Nil
  then have t: "takeWhile (\<lambda>c. c \<noteq> sep) s = s"
    by (metis append_Nil2 takeWhile_dropWhile_id)
  from Nil have sp: "split s sep = [s]"
    unfolding split_def by (subst split_acc_unfold) (simp only: list.case rev.simps append_Nil)
  show ?thesis by (intro exI [of _ "[]"]) (simp only: sp t)
next
  case (Cons c rest)
  then have "split s sep = takeWhile (\<lambda>c. c \<noteq> sep) s # split_acc sep [] rest"
    unfolding split_def by (subst split_acc_unfold) (simp only: list.case rev.simps append_Nil)
  then show ?thesis by simp
qed

lemma diet_of_key_segment: "diet_of_key key = segment_after_colon key"
proof (cases "dropWhile (\<lambda>c. c \<noteq> CHR '':'') key")
  case Nil
  then have "split key CHR '':'' = [key]"
    unfolding split_def by (subst split_acc_unfold) (simp only: list.case rev.simps append_Nil)
  then have "diet_of_key key = JUndefined"
    by (simp add: diet_of_key_def)
  moreover from Nil have "segment_after_colon key = JUndefined"
    by (simp only: segment_after_colon_def list.case)
  ultimately show ?thesis by simp
next
  case (Cons c rest)
  obtain ps where ps: "split rest CHR '':'' = takeWhile (\<lambda>c. c \<noteq> CHR '':'') rest # ps"
    using split_first_piece by blast
  from Cons have "split key CHR '':'' =
      takeWhile (\<lambda>c. c \<noteq> CHR '':'') key # split rest CHR '':''"
    unfolding split_def by (subst split_acc_unfold) (simp only: list.case rev.simps append_Nil)
  with ps have "diet_of_key key = JStr (takeWhile (\<lambda>c. c \<noteq> CHR '':'') rest)"
    by (simp add: diet_of_key_def)
  moreover from Cons have
    "segment_after_colon key = JStr (takeWhile (\<lambda>c. c \<noteq> CHR '':'') rest)"
    by (simp only: segment_after_colon_def list.case)
  ultimately show ?thesis by simp
qed

lemma diet_of_key_no_colon:
  assumes "CHR '':'' \<notin> set key"
  shows "diet_of_key key = JUndefined"
proof -
  from assms have "dropWhile (\<lambda>c. c \<noteq> CHR '':'') key = []"
    by (simp add: dropWhile_eq_Nil_conv) blast
  then have "segment_after_colon key = JUndefined"
    by (simp only: segment_after_colon_def list.case)
  then show ?thesis by (simp add: diet_of_key_segment)
qed

subsection \<open>The diets of one POI\<close>

lemma key_diets_spec: "key_diets poi = spec_diet_names poi"
  by (simp add: key_diets_def spec_diet_names_def diet_of_key_segment)

lemma cuisine_diets_spec:
  assumes "cuisine_diets poi = Inr cs"
  shows "cs = spec_cuisine_tokens poi"
proof -
  from assms obtain c where c: "get_prop poi ''cuisine'' = Inr c"
    by (auto simp: cuisine_diets_def bind_res_eq_Inr)
  from c have "c = lookup (own_props poi) ''cuisine''" by (rule get_prop_own) simp
  then have l: "lookup (own_props poi) ''cuisine'' = c" by simp
  from assms c show ?thesis
    unfolding cuisine_diets_def spec_cuisine_tokens_def l
    by (cases c) simp_all
qed

lemma poi_diets_result:
  assumes "poi_diets poi = Inr ds"
  shows "ds = foldl set_add [] (added_diets poi)" and "distinct ds" and "set ds = spec_labels poi"
proof -
  from assms obtain cs where cs: "cuisine_diets poi = Inr cs"
    and ds: "ds = foldl set_add [] (cs @ key_diets poi)"
    by (auto simp: poi_diets_def bind_res_eq_Inr)
  from cs ds show "ds = foldl set_add [] (added_diets poi)" by (simp add: added_diets_def)
  from ds show "distinct ds" by (simp add: distinct_foldl_set_add)
  from ds cuisine_diets_spec [OF cs] show "set ds = spec_labels poi"
    by (simp add: set_foldl_set_add spec_labels_def key_diets_spec)
qed

subsection \<open>The scan of the POIs\<close>

lemma scan_pois_diets:
  "scan_pois m pois = Inr m' \<Longrightarrow> poi \<in> set pois \<Longrightarrow> \<exists>ds. poi_diets poi = Inr ds"
  by (induction pois arbitrary: m) (auto simp: bind_res_eq_Inr)

lemma scan_pois_count:
  "scan_pois m pois = Inr m' \<Longrightarrow>
     map_count m' l = map_count m l + length (filter (\<lambda>poi. l \<in> spec_labels poi) pois)"
proof (induction pois arbitrary: m)
  case Nil
  then show ?case by simp
next
  case (Cons poi pois)
  from Cons.prems obtain ds where ds: "poi_diets poi = Inr ds"
    and rest: "scan_pois (foldl count_diet m ds) pois = Inr m'"
    by (auto simp: bind_res_eq_Inr)
  have "count_list ds l = (if l \<in> spec_labels poi then 1 else 0)"
    using poi_diets_result(2,3) [OF ds] by (simp add: count_list_distinct)
  with Cons.IH [OF rest] show ?case by (simp add: map_count_foldl)
qed

lemma scan_pois_no_zero:
  "scan_pois m pois = Inr m' \<Longrightarrow> \<forall>l. map_of m l \<noteq> Some 0 \<Longrightarrow> map_of m' l \<noteq> Some 0"
proof (induction pois arbitrary: m l)
  case Nil
  then show ?case by simp
next
  case (Cons poi pois)
  from Cons.prems(1) obtain ds where
    rest: "scan_pois (foldl count_diet m ds) pois = Inr m'"
    by (auto simp: bind_res_eq_Inr)
  have "\<forall>l. map_of (foldl count_diet m ds) l \<noteq> Some 0"
    using no_zero_foldl [OF Cons.prems(2)] by blast
  from Cons.IH [OF rest this] show ?case .
qed

lemma scan_pois_keys:
  "scan_pois m pois = Inr m' \<Longrightarrow>
     map fst m' = foldl set_add (map fst m) (concat (map (\<lambda>poi. foldl set_add [] (added_diets poi)) pois))"
proof (induction pois arbitrary: m)
  case Nil
  then show ?case by simp
next
  case (Cons poi pois)
  from Cons.prems obtain ds where ds: "poi_diets poi = Inr ds"
    and rest: "scan_pois (foldl count_diet m ds) pois = Inr m'"
    by (auto simp: bind_res_eq_Inr)
  from Cons.IH [OF rest] poi_diets_result(1) [OF ds] show ?case
    by (simp add: keys_foldl_count_diet)
qed

lemma scan_pois_distinct:
  "scan_pois [] pois = Inr m' \<Longrightarrow> distinct (map fst m')"
  by (simp add: scan_pois_keys distinct_foldl_set_add)

subsection \<open>Sorting\<close>

lemma set_insert_cmp: "set (insert_cmp cmp x ys) = insert x (set ys)"
  by (induction ys) auto

lemma set_sort_cmp: "set (sort_cmp cmp xs) = set xs"
  unfolding sort_cmp_def by (induction xs) (simp_all add: set_insert_cmp)

lemma length_insert_cmp: "length (insert_cmp cmp x ys) = Suc (length ys)"
  by (induction ys) auto

lemma length_sort_cmp: "length (sort_cmp cmp xs) = length xs"
  unfolding sort_cmp_def by (induction xs) (simp_all add: length_insert_cmp)

lemma distinct_keys_sort_cmp:
  assumes "distinct (map fst xs)"
  shows "distinct (map fst (sort_cmp cmp xs))"
proof -
  have "length (map fst (sort_cmp cmp xs)) = length (map fst xs)"
    by (simp add: length_sort_cmp)
  moreover have "set (map fst (sort_cmp cmp xs)) = set (map fst xs)"
    by (simp add: set_sort_cmp)
  ultimately show ?thesis
    using assms by (metis card_distinct distinct_card)
qed

lemma sorted_insert_cmp:
  "sorted_wrt (\<lambda>a b. snd b \<le> snd a) ys \<Longrightarrow>
     sorted_wrt (\<lambda>a b. snd b \<le> snd a) (insert_cmp by_count_desc x ys)"
  by (induction ys) (auto simp: set_insert_cmp by_count_desc_def)

lemma sorted_sort_cmp: "sorted_wrt (\<lambda>a b. snd b \<le> snd a) (sort_cmp by_count_desc xs)"
  unfolding sort_cmp_def by (induction xs) (simp_all add: sorted_insert_cmp)

lemma filter_insert_cmp_other:
  "snd x \<noteq> c \<Longrightarrow>
     filter (\<lambda>y. snd y = c) (insert_cmp by_count_desc x ys) = filter (\<lambda>y. snd y = c) ys"
  by (induction ys) auto

lemma filter_insert_cmp_same:
  "snd x = c \<Longrightarrow>
     filter (\<lambda>y. snd y = c) (insert_cmp by_count_desc x ys) = x # filter (\<lambda>y. snd y = c) ys"
  by (induction ys) (auto simp: by_count_desc_def)

lemma sort_cmp_stable:
  "filter (\<lambda>y. snd y = c) (sort_cmp by_count_desc xs) = filter (\<lambda>y. snd y = c) xs"
  unfolding sort_cmp_def
  by (induction xs) (simp_all add: filter_insert_cmp_other filter_insert_cmp_same)

subsection \<open>Order of discovery\<close>

lemma precedes_append:
  "precedes a b (xs @ ys) =
     (if a \<in> set xs \<or> b \<in> set xs then precedes a b xs else precedes a b ys)"
  by (induction xs) auto

lemma precedes_set_add: "precedes a b (set_add s x @ xs) = precedes a b (s @ x # xs)"
proof (cases "x \<in> set s")
  case False
  then show ?thesis by (simp add: set_add_def)
next
  case True
  then have "precedes a b (s @ x # xs) = precedes a b (s @ xs)"
    by (auto simp: precedes_append)
  with True show ?thesis by (simp add: set_add_def)
qed

lemma precedes_foldl_set_add:
  "precedes a b (foldl set_add s xs) = precedes a b (s @ xs)"
proof (induction xs arbitrary: s)
  case Nil
  show ?case by simp
next
  case (Cons x xs)
  have "precedes a b (foldl set_add s (x # xs)) = precedes a b (set_add s x @ xs)"
    using Cons.IH [of "set_add s x"] by simp
  then show ?case by (simp only: precedes_set_add)
qed

lemma precedes_filter:
  "P a \<Longrightarrow> P b \<Longrightarrow> precedes a b (filter P xs) = precedes a b xs"
  by (induction xs) auto

lemma precedes_keys:
  "distinct (map fst m) \<Longrightarrow> (k1, v1) \<in> set m \<Longrightarrow> (k2, v2) \<in> set m \<Longrightarrow>
     precedes (k1, v1) (k2, v2) m = precedes k1 k2 (map fst m)"
proof (induction m)
  case Nil
  then show ?case by simp
next
  case (Cons kv m)
  obtain k v where kv: "kv = (k, v)" by (cases kv)
  from Cons.prems(1) kv have fresh: "\<And>w. (k, w) \<notin> set m"
    by (auto simp: image_iff)
  show ?case
  proof (cases "k = k1")
    case True
    with Cons.prems(2) kv fresh have v: "v = v1" by auto
    from Cons.prems(3) kv fresh True v have "k2 = k1 \<Longrightarrow> v2 = v1" by auto
    with v show ?thesis using kv True by auto
  next
    case False
    note k1 = this
    show ?thesis
    proof (cases "k = k2")
      case True
      with Cons.prems(3) kv fresh have "v = v2" by auto
      with kv True k1 show ?thesis by auto
    next
      case False
      with k1 Cons.prems kv have "(k1, v1) \<in> set m" "(k2, v2) \<in> set m" "distinct (map fst m)"
        by auto
      from Cons.IH [OF this(3,1,2)] kv k1 False show ?thesis by auto
    qed
  qed
qed

lemma precedes_nth:
  "distinct xs \<Longrightarrow> i < j \<Longrightarrow> j < length xs \<Longrightarrow> precedes (xs ! i) (xs ! j) xs"
proof (induction xs arbitrary: i j)
  case Nil
  then show ?case by simp
next
  case (Cons x xs)
  show ?case
  proof (cases i)
    case 0
    with Cons.prems show ?thesis by (cases j) auto
  next
    case (Suc i')
    with Cons.prems obtain j' where j: "j = Suc j'" by (cases j) auto
    with Suc Cons.prems have "i' < j'" "j' < length xs" "distinct xs" by auto
    from Cons.IH [OF this(3,1,2)] have "precedes (xs ! i') (xs ! j') xs" .
    moreover from Cons.prems Suc j have "x \<noteq> xs ! i'" "x \<noteq> xs ! j'" by auto
    ultimately show ?thesis using Suc j by simp
  qed
qed

subsection \<open>The result of the extraction\<close>

lemma extractDiets_scan:
  assumes "extractDiets pois = Inr out"
  obtains m where "scan_pois [] pois = Inr m" and "out = sort_cmp by_count_desc m"
  using assms by (auto simp: extractDiets_def bind_res_eq_Inr)

lemma extractDiets_distinct:
  assumes "extractDiets pois = Inr out"
  shows "distinct (map fst out)"
proof -
  from assms obtain m where m: "scan_pois [] pois = Inr m" and out: "out = sort_cmp by_count_desc m"
    by (rule extractDiets_scan)
  from scan_pois_distinct [OF m] out show ?thesis by (simp add: distinct_keys_sort_cmp)
qed

lemma extractDiets_entry:
  assumes "extractDiets pois = Inr out"
  shows "(l, n) \<in> set out \<longleftrightarrow>
           0 < n \<and> n = length (filter (\<lambda>poi. l \<in> spec_labels poi) pois)"
proof -
  from assms obtain m where m: "scan_pois [] pois = Inr m" and out: "out = sort_cmp by_count_desc m"
    by (rule extractDiets_scan)
  have d: "distinct (map fst m)" by (rule scan_pois_distinct [OF m])
  have c: "map_count m l = length (filter (\<lambda>poi. l \<in> spec_labels poi) pois)"
    using scan_pois_count [OF m, of l] by (simp add: map_count_def)
  have z: "map_of m l \<noteq> Some 0"
    by (rule scan_pois_no_zero [OF m]) simp
  have "(l, n) \<in> set out \<longleftrightarrow> map_of m l = Some n"
    using d by (simp add: out set_sort_cmp)
  also have "\<dots> \<longleftrightarrow> 0 < n \<and> n = map_count m l"
    using z by (auto simp: map_count_def split: option.splits)
  finally show ?thesis by (simp add: c)
qed

lemma precedes_concat_dedup:
  "precedes a b (concat (map (\<lambda>x. foldl set_add [] (f x)) xs)) = precedes a b (concat (map f xs))"
  by (induction xs) (simp_all add: precedes_append set_foldl_set_add precedes_foldl_set_add)

lemma extractDiets_ties:
  assumes "extractDiets pois = Inr out" and "i < j" and "j < length out"
    and "snd (out ! i) = snd (out ! j)"
  shows "precedes (fst (out ! i)) (fst (out ! j)) (encounters pois)"
proof -
  from assms(1) obtain m where m: "scan_pois [] pois = Inr m"
    and out: "out = sort_cmp by_count_desc m"
    by (rule extractDiets_scan)
  obtain k1 v1 where a: "out ! i = (k1, v1)" by (cases "out ! i")
  obtain k2 v2 where b: "out ! j = (k2, v2)" by (cases "out ! j")
  from assms(4) a b have v: "v2 = v1" by simp
  have dm: "distinct (map fst m)" by (rule scan_pois_distinct [OF m])
  from extractDiets_distinct [OF assms(1)] have "distinct out" by (simp add: distinct_map)
  from precedes_nth [OF this assms(2,3)] a b v have "precedes (k1, v1) (k2, v1) out" by simp
  then have "precedes (k1, v1) (k2, v1) (filter (\<lambda>y. snd y = v1) out)"
    by (simp add: precedes_filter)
  then have "precedes (k1, v1) (k2, v1) (filter (\<lambda>y. snd y = v1) m)"
    by (simp add: out sort_cmp_stable)
  then have p: "precedes (k1, v1) (k2, v1) m"
    by (simp add: precedes_filter)
  from assms(2,3) a b v have "(k1, v1) \<in> set out" "(k2, v1) \<in> set out"
    by (metis nth_mem order.strict_trans)+
  then have "(k1, v1) \<in> set m" "(k2, v1) \<in> set m"
    by (simp_all add: out set_sort_cmp)
  from precedes_keys [OF dm this] p have "precedes k1 k2 (map fst m)" by simp
  then have "precedes k1 k2 (encounters pois)"
    by (simp add: scan_pois_keys [OF m] precedes_foldl_set_add precedes_concat_dedup encounters_def)
  with a b show ?thesis by simp
qed

lemma extractDiets_sorted:
  assumes "extractDiets pois = Inr out"
  shows "sorted_wrt (\<lambda>a b. snd b \<le> snd a) out"
proof -
  from assms obtain m where "out = sort_cmp by_count_desc m"
    by (rule extractDiets_scan)
  then show ?thesis by (simp add: sorted_sort_cmp)
qed

lemma extractDiets_poi_diets:
  assumes "extractDiets pois = Inr out" and "poi \<in> set pois"
  shows "\<exists>ds. poi_diets poi = Inr ds \<and> distinct ds \<and> set ds = spec_labels poi"
proof -
  from assms(1) obtain m where m: "scan_pois [] pois = Inr m"
    by (rule extractDiets_scan)
  from scan_pois_diets [OF m assms(2)] obtain ds where ds: "poi_diets poi = Inr ds" ..
  with poi_diets_result(2,3) [OF ds] show ?thesis by simp
qed


lemma four_restaurants_result:
  "extractDiets four_restaurants =
     Inr [(JStr ''vegan'', 2), (JStr ''thai'', 2), (JStr ''italian'', 1), (JStr ''pizza'', 1),
          (JUndefined, 1), (JStr ''kosher'', 1)]"
  by code_simp

section \<open>The claims\<close>

text \<open>
  C1, as the code has it. The type computed on line 35 is a local constant: it goes
  into the two URLs and is never stored. Every returned record, taken with the element
  of the response it comes from (the elements whose \<open>tags\<close> is truthy, in order), has
  the \<open>type\<close>, \<open>members\<close> and \<open>id\<close> of the merge of the element with its
  tags: the tag of that name when the element has one, the element's own field
  otherwise, absent when there is neither. The \<open>type\<close> field is thus not rewritten.
  When the merged \<open>members\<close> is truthy, the type in \<open>osm_url\<close> and
  \<open>osm_url_edit\<close> is \<open>relation\<close>, whatever the \<open>type\<close> field is.
\<close>

theorem relation_type_in_urls:
  assumes "build_quest bbox [] categories = Inr quest"
    and "fetch (Post overpass_url (overpass_body quest)) = Inr data"
    and "get_prop data ''elements'' = Inr (JArr elems named)"
    and "openstreetmapGetPOIs fetch bbox categories = Inr out"
  shows "list_all2
          (\<lambda>p r. \<exists>kvs.
             r = JObj kvs
           \<and> lookup kvs ''type'' = merged_field p ''type''
           \<and> lookup kvs ''members'' = merged_field p ''members''
           \<and> lookup kvs ''id'' = merged_field p ''id''
           \<and> (truthy (merged_field p ''members'') \<longrightarrow>
                (\<exists>i. to_string (merged_field p ''id'') = Inr i \<and>
                   lookup kvs ''osm_url'' =
                     JStr (''https://www.openstreetmap.org/relation/'' @ i) \<and>
                   lookup kvs ''osm_url_edit'' =
                     JStr (''https://www.openstreetmap.org/edit?relation='' @ i))))
          (filter tags_truthy elems) out"
proof (rule list_all2_mono [OF openstreetmapGetPOIs_normalized [OF assms]])
  fix p r
  assume "normalize_poi p = Inr r"
  from normalize_poi_fields [OF this]
  show "\<exists>kvs.
             r = JObj kvs
           \<and> lookup kvs ''type'' = merged_field p ''type''
           \<and> lookup kvs ''members'' = merged_field p ''members''
           \<and> lookup kvs ''id'' = merged_field p ''id''
           \<and> (truthy (merged_field p ''members'') \<longrightarrow>
                (\<exists>i. to_string (merged_field p ''id'') = Inr i \<and>
                   lookup kvs ''osm_url'' =
                     JStr (''https://www.openstreetmap.org/relation/'' @ i) \<and>
                   lookup kvs ''osm_url_edit'' =
                     JStr (''https://www.openstreetmap.org/edit?relation='' @ i)))"
  proof (elim exE conjE)
    fix kvs t i
    assume r: "r = JObj kvs"
      and f: "\<forall>k. k \<notin> {''tags'', ''website'', ''osm_url'', ''osm_url_edit''} \<longrightarrow>
               lookup kvs k = merged_field p k"
      and t: "to_string (url_type kvs) = Inr t" and i: "to_string (lookup kvs ''id'') = Inr i"
      and u: "lookup kvs ''osm_url'' = JStr (''https://www.openstreetmap.org/'' @ t @ ''/'' @ i)"
      and e: "lookup kvs ''osm_url_edit'' =
                JStr (''https://www.openstreetmap.org/edit?'' @ t @ ''='' @ i)"
    show ?thesis
      by (rule exI [of _ kvs]) (rule conjI [OF r relation_urls_of_fields [OF f t i u e]])
  qed
qed

theorem relation_type_in_urls_witness:
  "filter tags_truthy [multipolygon_element] = [multipolygon_element]
   \<and> merged_field multipolygon_element ''type'' = JStr ''multipolygon''
   \<and> truthy (merged_field multipolygon_element ''members'')
   \<and> list_all2
          (\<lambda>p r. \<exists>kvs.
             r = JObj kvs
           \<and> lookup kvs ''type'' = merged_field p ''type''
           \<and> lookup kvs ''members'' = merged_field p ''members''
           \<and> lookup kvs ''id'' = merged_field p ''id''
           \<and> (truthy (merged_field p ''members'') \<longrightarrow>
                (\<exists>i. to_string (merged_field p ''id'') = Inr i \<and>
                   lookup kvs ''osm_url'' =
                     JStr (''https://www.openstreetmap.org/relation/'' @ i) \<and>
                   lookup kvs ''osm_url_edit'' =
                     JStr (''https://www.openstreetmap.org/edit?relation='' @ i))))
          [multipolygon_element] [JObj multipolygon_poi]"
proof -
  obtain quest where q: "build_quest demo_bbox [] cafe_categories = Inr quest"
    by (simp add: cafe_categories_def demo_bbox_def category_filters_pair)
  have f: "canned overpass_multipolygon (Post overpass_url (overpass_body quest)) =
             Inr overpass_multipolygon"
    by (simp add: canned_def)
  have e: "get_prop overpass_multipolygon ''elements'' = Inr (JArr [multipolygon_element] [])"
    by (simp add: overpass_multipolygon_def lookup_def)
  have k: "filter tags_truthy [multipolygon_element] = [multipolygon_element]"
    by code_simp
  have ty: "merged_field multipolygon_element ''type'' = JStr ''multipolygon''"
    by code_simp
  have me: "truthy (merged_field multipolygon_element ''members'')"
    by code_simp
  note th = relation_type_in_urls
    [where fetch = "canned overpass_multipolygon", OF q f e multipolygon_query_result,
      unfolded k]
  show ?thesis by (intro conjI) (rule k ty me th)+
qed

text \<open>
  C1 as stated fails: a relation with the tag \<open>type=multipolygon\<close> comes back with
  the \<open>type\<close> field \<open>multipolygon\<close>, and a relation reported without a type
  comes back without a \<open>type\<close> field; neither field is \<open>relation\<close>.
\<close>

theorem relation_type_field_not_forced:
  "openstreetmapGetPOIs (canned overpass_multipolygon) demo_bbox cafe_categories =
     Inr [JObj multipolygon_poi]
   \<and> lookup multipolygon_poi ''type'' = JStr ''multipolygon''
   \<and> lookup multipolygon_poi ''type'' \<noteq> JStr ''relation''
   \<and> openstreetmapGetPOIs (canned overpass_untyped) demo_bbox cafe_categories =
     Inr [JObj untyped_poi]
   \<and> lookup untyped_poi ''type'' = JUndefined
   \<and> lookup untyped_poi ''type'' \<noteq> JStr ''relation''"
  by code_simp

text \<open>
  C2. \<open>openstreetmapGetRestaurants\<close> is meant to return the POI query over the fixed
  bounding box for amenity=cafe and amenity=restaurant. It passes each category as an
  object \<open>{key, value}\<close>, which the array pattern of \<open>openstreetmapGetPOIs\<close> cannot
  take apart: the call fails with a TypeError before any request is made, whatever the
  network would answer. (\<open>getFoodShops\<close> passes arrays, for which
  \<open>category_filters_pair\<close> gives the node, way and relation filters.)
\<close>

theorem openstreetmapGetRestaurants_throws:
  "openstreetmapGetRestaurants fetch = Inl TypeError"
  by (simp add: openstreetmapGetRestaurants_def openstreetmapGetPOIs_def category_filters_def)

text \<open>
  C3, as the code has it. The query returns, in the order of the response and each
  normalised, exactly the elements whose \<open>tags\<close> is truthy. Every element with at
  least one tag is among them and every element without a \<open>tags\<close> field is not;
  an element whose \<open>tags\<close> is the empty object is among them too.
\<close>

theorem openstreetmapGetPOIs_keeps_truthy_tags:
  assumes "build_quest bbox [] categories = Inr quest"
    and "fetch (Post overpass_url (overpass_body quest)) = Inr (JObj body)"
    and "lookup body ''elements'' = JArr elems named"
    and "openstreetmapGetPOIs fetch bbox categories = Inr out"
  shows "list_all2 (\<lambda>p r. normalize_poi p = Inr r) (filter tags_truthy elems) out
       \<and> (\<forall>p \<in> set elems. carries_a_tag p \<longrightarrow> p \<in> set (filter tags_truthy elems))
       \<and> (\<forall>p \<in> set elems. lookup (own_props p) ''tags'' = JUndefined \<longrightarrow>
            p \<notin> set (filter tags_truthy elems))
       \<and> (\<forall>p \<in> set elems. lookup (own_props p) ''tags'' = JObj [] \<longrightarrow>
            p \<in> set (filter tags_truthy elems))"
  using openstreetmapGetPOIs_kept [OF assms] carries_a_tag_truthy no_tags_not_truthy
  by (auto simp: tags_truthy_def)

theorem openstreetmapGetPOIs_keeps_truthy_tags_witness:
  "list_all2 (\<lambda>p r. normalize_poi p = Inr r) (filter tags_truthy cafe_elements) [JObj cafe_poi]"
proof -
  obtain quest where q: "build_quest demo_bbox [] cafe_categories = Inr quest"
    by (simp add: cafe_categories_def demo_bbox_def category_filters_pair)
  have f: "canned overpass_cafe (Post overpass_url (overpass_body quest)) =
             Inr (JObj [(''elements'', JArr cafe_elements [])])"
    by (simp add: canned_def overpass_cafe_def)
  have e: "lookup [(''elements'', JArr cafe_elements [])] ''elements'' = JArr cafe_elements []"
    by (simp add: lookup_def)
  from openstreetmapGetPOIs_keeps_truthy_tags
    [where fetch = "canned overpass_cafe", OF q f e cafe_query_result]
  show ?thesis by blast
qed

text \<open>
  C3 as stated fails on an element whose tag container is empty: it carries no tag, and
  the query returns it.
\<close>

theorem empty_tags_element_kept:
  "\<not> carries_a_tag empty_tags_node
   \<and> get_prop overpass_empty_tags ''elements'' =
       Inr (JArr [empty_tags_node, JObj [(''type'', JStr ''node''), (''id'', JNum 2)]] [])
   \<and> openstreetmapGetPOIs (canned overpass_empty_tags) demo_bbox cafe_categories =
       Inr [JObj empty_tags_poi]
   \<and> normalize_poi empty_tags_node = Inr (JObj empty_tags_poi)"
  by code_simp



text \<open>
  C5. The pairs that \<open>extractDiets\<close> returns are in descending order of count, and
  of two labels with the same count the one met first while the POIs are scanned in
  order comes first.
\<close>

theorem extractDiets_order:
  assumes "extractDiets pois = Inr out"
  shows "sorted_wrt (\<lambda>a b. snd b \<le> snd a) out
       \<and> (\<forall>i j. i < j \<and> j < length out \<and> snd (out ! i) = snd (out ! j) \<longrightarrow>
            precedes (fst (out ! i)) (fst (out ! j)) (encounters pois))"
  using extractDiets_sorted [OF assms] extractDiets_ties [OF assms] by blast

theorem extractDiets_order_witness:
  "extractDiets four_restaurants =
     Inr [(JStr ''vegan'', 2), (JStr ''thai'', 2), (JStr ''italian'', 1), (JStr ''pizza'', 1),
          (JUndefined, 1), (JStr ''kosher'', 1)]
   \<and> precedes (JStr ''vegan'') (JStr ''thai'') (encounters four_restaurants)
   \<and> precedes (JStr ''pizza'') JUndefined (encounters four_restaurants)"
proof -
  note o = extractDiets_order [OF four_restaurants_result, THEN conjunct2, rule_format]
  have "precedes (JStr ''vegan'') (JStr ''thai'') (encounters four_restaurants)"
    using o [of 0 1] by simp
  moreover have "precedes (JStr ''pizza'') JUndefined (encounters four_restaurants)"
    using o [of 3 4] by simp
  ultimately show ?thesis using four_restaurants_result by simp
qed




text \<open>
  C7, as the code has it. On a response body that is an object: a truthy \<open>error\<close>
  (every error object is truthy) rejects the call with exactly that value, and no list
  is returned; with no truthy \<open>error\<close> and a \<open>query\<close> object the call returns
  \<open>query.geosearch\<close>, or the empty list when that is falsy; with no \<open>query\<close>
  either, the call fails with a TypeError.
\<close>

theorem wikimediaQuery_response:
  assumes "wikimediaQuery_url northEast southWest (default_arg (JNum 100) limit) = Inr q"
    and "fetch (Get q) = Inr (JObj body)"
  shows "(truthy (lookup body ''error'') \<longrightarrow>
            wikimediaQuery fetch northEast southWest limit = Inl (Rejected (lookup body ''error'')))
       \<and> (\<forall>e. lookup body ''error'' = JObj e \<longrightarrow>
            wikimediaQuery fetch northEast southWest limit = Inl (Rejected (JObj e)))
       \<and> (\<forall>query. \<not> truthy (lookup body ''error'') \<and> lookup body ''query'' = JObj query \<longrightarrow>
            wikimediaQuery fetch northEast southWest limit =
              Inr (if truthy (lookup query ''geosearch'') then lookup query ''geosearch''
                   else JArr [] []))
       \<and> (\<not> truthy (lookup body ''error'') \<and> lookup body ''query'' = JUndefined \<longrightarrow>
            wikimediaQuery fetch northEast southWest limit = Inl TypeError)"
  using assms by (simp add: wikimediaQuery_def hits_of_response_def)

theorem wikimediaQuery_response_witness:
  "wikimediaQuery (canned commons_error) (corner 38 (- 122)) (corner 37 (- 123)) JUndefined =
     Inl (Rejected (JObj [(''code'', JStr ''badvalue''), (''info'', JStr ''Invalid bounding box'')]))
   \<and> wikimediaQuery (canned commons_hits) (corner 38 (- 122)) (corner 37 (- 123)) JUndefined =
     Inr (JArr [JObj [(''pageid'', JNum 12), (''title'', JStr ''File:Pier.jpg'')]] [])"
proof -
  let ?q = "''https://commons.wikimedia.org/w/api.php?action=query&list=geosearch&gsbbox=38%7C-123%7C37%7C-122&gsnamespace=6&gslimit=100&format=json&origin=*''"
  have u: "wikimediaQuery_url (corner 38 (- 122)) (corner 37 (- 123))
             (default_arg (JNum 100) JUndefined) = Inr ?q"
    by (simp add: default_arg_def wikimediaQuery_url_example)
  have e: "canned commons_error (Get ?q) =
      Inr (JObj [(''error'', JObj [(''code'', JStr ''badvalue''), (''info'', JStr ''Invalid bounding box'')])])"
    by (simp add: canned_def commons_error_def)
  have h: "canned commons_hits (Get ?q) =
      Inr (JObj [(''batchcomplete'', JStr []),
           (''query'', JObj [(''geosearch'',
              JArr [JObj [(''pageid'', JNum 12), (''title'', JStr ''File:Pier.jpg'')]] [])])])"
    by (simp add: canned_def commons_hits_def)
  show ?thesis
    using wikimediaQuery_response [where fetch = "canned commons_error", OF u e]
      wikimediaQuery_response [where fetch = "canned commons_hits", OF u h]
    by (simp add: lookup_def)
qed

text \<open>
  C7 as stated fails on a body without an \<open>error\<close> field that has no \<open>query\<close>
  field either: the call returns no list of hits, it fails with a TypeError.
\<close>

theorem wikimediaQuery_no_query_throws:
  "get_prop commons_no_query ''error'' = Inr JUndefined \<and>
   wikimediaQuery (canned commons_no_query) (corner 38 (- 122)) (corner 37 (- 123)) JUndefined
     = Inl TypeError"
  by (simp add: wikimediaQuery_def wikimediaQuery_url_example commons_no_query_def canned_def
      default_arg_def hits_of_response_def lookup_def)

text \<open>
  C8. When the per-page mapping that the batch query returns has no entry for the
  requested page id, \<open>wikimediaInfo\<close> fails: the read of \<open>imageinfo\<close> on the
  missing entry raises a TypeError, the lookup error of JavaScript. No result, empty or
  default, is returned.
\<close>

theorem wikimediaInfo_missing_page:
  assumes "wikimediaInfoMultiplePages fetch [pageid] (default_arg (JNum 600) thumbWidth) =
             Inr (JObj pages)"
    and "to_string pageid = Inr key"
    and "key \<notin> fst ` set pages"
  shows "wikimediaInfo fetch pageid thumbWidth = Inl TypeError"
  using assms by (simp add: wikimediaInfo_def lookup_absent)

theorem wikimediaInfo_missing_page_witness:
  "wikimediaInfo (canned commons_pages) (JNum 13) JUndefined = Inl TypeError"
proof -
  have p: "wikimediaInfoMultiplePages (canned commons_pages) [JNum 13]
             (default_arg (JNum 600) JUndefined) =
           Inr (JObj [(''12'', JObj [(''pageid'', JNum 12), (''title'', JStr ''File:Pier.jpg'')])])"
    by (simp add: wikimediaInfoMultiplePages_def default_arg_def join_def canned_def
        commons_pages_def lookup_def)
  have k: "to_string (JNum 13) = Inr ''13''"
    by (simp add: show_int_def show_nat.simps digit_char_def)
  have n: "''13'' \<notin> fst ` set [(''12'', JObj [(''pageid'', JNum 12), (''title'', JStr ''File:Pier.jpg'')])]"
    by simp
  show ?thesis by (rule wikimediaInfo_missing_page [OF p k n])
qed



text \<open>
  C10. A POI with a key that starts with \<open>diet\<close>, holds no colon and has the value
  \<open>yes\<close> puts the nameless label \<open>undefined\<close> into its set of diets; the label
  is counted like any other, once for every POI whose set holds it, and is an entry of
  the output.
\<close>

theorem extractDiets_nameless_label:
  assumes "extractDiets pois = Inr out" and "poi \<in> set pois"
    and "key \<in> fst ` set (own_props poi)" and "startsWith key ''diet''"
    and "CHR '':'' \<notin> set key" and "lookup (own_props poi) key = JStr ''yes''"
  shows "JUndefined \<in> set (key_diets poi)
       \<and> (\<exists>ds. poi_diets poi = Inr ds \<and> JUndefined \<in> set ds)
       \<and> 0 < length (filter (\<lambda>poi. JUndefined \<in> spec_labels poi) pois)
       \<and> (JUndefined, length (filter (\<lambda>poi. JUndefined \<in> spec_labels poi) pois)) \<in> set out"
proof -
  have "key \<in> set (filter (\<lambda>key. startsWith key ''diet'' \<and> lookup (own_props poi) key = JStr ''yes'')
          (map fst (own_props poi)))"
    using assms(3,4,6) by simp
  then have "diet_of_key key \<in> set (key_diets poi)"
    unfolding key_diets_def by (simp only: set_map) (rule imageI)
  with diet_of_key_no_colon [OF assms(5)] have k: "JUndefined \<in> set (key_diets poi)" by simp
  then have s: "JUndefined \<in> spec_labels poi"
    by (simp add: spec_labels_def key_diets_spec)
  from extractDiets_poi_diets [OF assms(1,2)] s
  have d: "\<exists>ds. poi_diets poi = Inr ds \<and> JUndefined \<in> set ds" by auto
  from s assms(2) have "poi \<in> set (filter (\<lambda>poi. JUndefined \<in> spec_labels poi) pois)" by simp
  then have n: "0 < length (filter (\<lambda>poi. JUndefined \<in> spec_labels poi) pois)"
    by (metis length_pos_if_in_set)
  with extractDiets_entry [OF assms(1), of JUndefined
      "length (filter (\<lambda>poi. JUndefined \<in> spec_labels poi) pois)"]
  have "(JUndefined, length (filter (\<lambda>poi. JUndefined \<in> spec_labels poi) pois)) \<in> set out"
    by simp
  with k d n show ?thesis by simp
qed

theorem extractDiets_nameless_label_witness:
  "extractDiets [bare_diet_restaurant] = Inr [(JUndefined, 1)]
   \<and> JUndefined \<in> set (key_diets bare_diet_restaurant)
   \<and> (JUndefined, length (filter (\<lambda>poi. JUndefined \<in> spec_labels poi) [bare_diet_restaurant]))
       \<in> set [(JUndefined, 1 :: nat)]"
proof -
  have r: "extractDiets [bare_diet_restaurant] = Inr [(JUndefined, 1)]"
    by code_simp
  have p: "bare_diet_restaurant \<in> set [bare_diet_restaurant]" by simp
  have k: "''diet'' \<in> fst ` set (own_props bare_diet_restaurant)"
    by (simp add: bare_diet_restaurant_def)
  have s: "startsWith ''diet'' ''diet''" by (simp add: startsWith_def)
  have c: "CHR '':'' \<notin> set ''diet''" by simp
  have y: "lookup (own_props bare_diet_restaurant) ''diet'' = JStr ''yes''"
    by (simp add: bare_diet_restaurant_def lookup_def)
  from extractDiets_nameless_label [OF r p k s c y] r show ?thesis by simp
qed

end
